theory Spec2Isabelle
  imports Complex_Main
begin

section \<open>PartialContentServer: the range-request subsystem of server.js\<close>

text \<open>
  The embedding follows \<^verbatim>\<open>src/server.js\<close> function by function. JavaScript numbers
  are modelled as \<^typ>\<open>int\<close> (offsets, lengths, points) and \<^typ>\<open>rat\<close> (the score
  multiplier 1.5): every value the code computes from a header of fewer than sixteen
  digits per number is an integer below \<open>2^53\<close>, or a multiple of one half, which a double
  represents exactly. Where the rounding of larger numbers matters, the loop of
  \<^verbatim>\<open>getRanges\<close> is given a second time in double precision, and the two are proved to
  agree below \<open>2^53\<close>. Strings are \<^typ>\<open>string\<close>; every string the server builds is ASCII,
  so \<^const>\<open>length\<close> is both the JavaScript \<^verbatim>\<open>.length\<close> and the byte count on the wire.
\<close>

subsection \<open>String primitives of the platform\<close>

definition CRLF :: string where
  "CRLF = [CHR 0x0D, CHR 0x0A]"

text \<open>\<^verbatim>\<open>String.prototype.trim\<close>: the white space a header value can hold.\<close>

definition isWhiteSpace :: "char \<Rightarrow> bool" where
  "isWhiteSpace c = (c \<in> set [CHR 0x09, CHR 0x0A, CHR 0x0B, CHR 0x0C, CHR 0x0D, CHR 0x20, CHR 0xA0])"

definition trim :: "string \<Rightarrow> string" where
  "trim s = rev (dropWhile isWhiteSpace (rev (dropWhile isWhiteSpace s)))"

text \<open>\<^verbatim>\<open>String.prototype.split\<close> with a one-character separator: never an empty array.\<close>

fun split :: "char \<Rightarrow> string \<Rightarrow> string list" where
  "split sep [] = [[]]"
| "split sep (c # cs) =
     (if c = sep then [] # split sep cs
      else (case split sep cs of
              [] \<Rightarrow> [[c]]
            | w # ws \<Rightarrow> (c # w) # ws))"

definition isDigit :: "char \<Rightarrow> bool" where
  "isDigit c = (48 \<le> (of_char c :: nat) \<and> (of_char c :: nat) \<le> 57)"

definition digitValue :: "char \<Rightarrow> int" where
  "digitValue c = int (of_char c) - 48"

text \<open>\<^verbatim>\<open>Number(s)\<close> on a string of decimal digits, as an exact integer: the number
  the code gets when the value is at most \<open>2^53\<close>; \<open>toNumberD\<close> below rounds as the code
  does.\<close>

definition Number :: "string \<Rightarrow> int" where
  "Number s = foldl (\<lambda>acc c. 10 * acc + digitValue c) 0 s"

text \<open>The text a template literal gives a number: decimal digits, a minus sign first
  when negative.\<close>

fun showNat :: "nat \<Rightarrow> string" where
  "showNat n = (if n < 10 then [char_of (48 + n)] else showNat (n div 10) @ [char_of (48 + n mod 10)])"

declare showNat.simps [simp del]

definition showInt :: "int \<Rightarrow> string" where
  "showInt i = (if i < 0 then CHR ''-'' # showNat (nat (- i)) else showNat (nat i))"

text \<open>
  \<^verbatim>\<open>/([0-9]{0,})\-([0-9]{0,})/g.exec(value)\<close> on a fresh regular expression: the
  leftmost position where a greedy run of digits is followed by a hyphen, with the greedy
  run of digits after the hyphen. Giving back digits cannot help at a position (the next
  character would be a digit, not the hyphen), so one attempt per position decides it.
  \<open>None\<close> is the \<^verbatim>\<open>null\<close> of a failed match; an empty group is the empty string.
\<close>

definition matchHere :: "string \<Rightarrow> (string \<times> string) option" where
  "matchHere s =
     (case dropWhile isDigit s of
        [] \<Rightarrow> None
      | c # rest \<Rightarrow> if c = CHR ''-'' then Some (takeWhile isDigit s, takeWhile isDigit rest) else None)"

fun exec :: "string \<Rightarrow> (string \<times> string) option" where
  "exec [] = matchHere []"
| "exec (c # cs) = (case matchHere (c # cs) of Some m \<Rightarrow> Some m | None \<Rightarrow> exec cs)"

subsection \<open>Errors\<close>

text \<open>
  Whatever the \<^verbatim>\<open>try\<close> block throws, as the \<^verbatim>\<open>catch\<close> clause reads it: the
  properties \<^verbatim>\<open>statusCode\<close>, \<^verbatim>\<open>statusMessage\<close> and \<^verbatim>\<open>fileSize\<close>,
  \<open>None\<close> where the thrown object has no such property. An error of the runtime
  (a \<^verbatim>\<open>TypeError\<close>, the \<^verbatim>\<open>ERR_OUT_OF_RANGE\<close> of the file system) has none of them.
\<close>

record thrown =
  errStatusCode :: "int option"
  errStatusMessage :: "string option"
  errFileSize :: "int option"

definition NOT_FOUND :: thrown where
  "NOT_FOUND = \<lparr>errStatusCode = Some 404, errStatusMessage = Some ''Not Found'', errFileSize = None\<rparr>"

definition METHOD_NOT_ALLOWED :: thrown where
  "METHOD_NOT_ALLOWED =
     \<lparr>errStatusCode = Some 405, errStatusMessage = Some ''Method Not Allowed'', errFileSize = None\<rparr>"

definition BYTES_UNIT_NOT_VALID :: thrown where
  "BYTES_UNIT_NOT_VALID =
     \<lparr>errStatusCode = Some 416, errStatusMessage = Some ''Bytes unit not valid'', errFileSize = None\<rparr>"

definition RANGE_NOT_SATISFABLE :: thrown where
  "RANGE_NOT_SATISFABLE =
     \<lparr>errStatusCode = Some 416, errStatusMessage = Some ''Range Not Satisfable'', errFileSize = None\<rparr>"

definition INTERNAL_SERVER_ERROR :: thrown where
  "INTERNAL_SERVER_ERROR =
     \<lparr>errStatusCode = Some 500, errStatusMessage = Some ''Internal Server Error'', errFileSize = None\<rparr>"

definition runtimeError :: thrown where
  "runtimeError = \<lparr>errStatusCode = None, errStatusMessage = None, errFileSize = None\<rparr>"

definition highWaterMark :: int where
  "highWaterMark = 65536"

definition partialMaxLength :: int where
  "partialMaxLength = 524288"

subsection \<open>isDenialOfServiceAttacks\<close>

record byteRange =
  start :: int
  end' :: int

definition POINT_OF_NOT_SATISFABLE :: int where
  "POINT_OF_NOT_SATISFABLE = 10"

definition POINT_CROSS_RANGE :: int where
  "POINT_CROSS_RANGE = 3"

definition POINT_SMALL_RANGE :: int where
  "POINT_SMALL_RANGE = 2"

definition SMALL_RANGE :: int where
  "SMALL_RANGE = 65536"

definition POINT_NOT_SORTED_MULTIPLICATOR :: rat where
  "POINT_NOT_SORTED_MULTIPLICATOR = 3 / 2"

text \<open>The three variables the \<^verbatim>\<open>forEach\<close> callback updates.\<close>

record dos =
  POINT_SUM :: int
  MULTIPLICATOR :: rat
  check :: byteRange

text \<open>The test of line 265, on the previous part \<open>check\<close> and the current part \<open>value\<close>.\<close>

definition crossRange :: "byteRange \<Rightarrow> byteRange \<Rightarrow> bool" where
  "crossRange chk value =
     (max (end' chk) (end' value) - min (start chk) (start value)
        < (end' chk - start chk) + (end' value - start value))"

text \<open>One call of the callback (lines 252 to 269), the statements in the source's order.\<close>

definition dosStep :: "dos \<Rightarrow> nat \<Rightarrow> byteRange \<Rightarrow> dos" where
  "dosStep st index value =
     (let s1 = (if start value > end' value
                then st\<lparr>POINT_SUM := POINT_SUM st + POINT_OF_NOT_SATISFABLE\<rparr> else st);
          s2 = (if end' value - start value < SMALL_RANGE
                then s1\<lparr>POINT_SUM := POINT_SUM s1 + POINT_SMALL_RANGE\<rparr> else s1);
          s3 = (if index > 0
                then (let s3a = (if end' (check s2) < start value
                                 then s2\<lparr>MULTIPLICATOR := POINT_NOT_SORTED_MULTIPLICATOR\<rparr> else s2)
                      in (if crossRange (check s3a) value
                          then s3a\<lparr>POINT_SUM := POINT_SUM s3a + POINT_CROSS_RANGE\<rparr> else s3a))
                else s2)
      in s3\<lparr>check := value\<rparr>)"

fun dosForEach :: "dos \<Rightarrow> nat \<Rightarrow> byteRange list \<Rightarrow> dos" where
  "dosForEach st index [] = st"
| "dosForEach st index (value # rest) = dosForEach (dosStep st index value) (Suc index) rest"

text \<open>The state when the loop is over; \<open>first\<close> is \<^verbatim>\<open>byteRangeSet[0]\<close>, the first value
  of \<open>check\<close>.\<close>

definition dosScan :: "byteRange \<Rightarrow> byteRange list \<Rightarrow> dos" where
  "dosScan first byteRangeSet =
     dosForEach \<lparr>POINT_SUM = 0, MULTIPLICATOR = 1, check = first\<rparr> 0 byteRangeSet"

definition dosScore :: "dos \<Rightarrow> rat" where
  "dosScore st = of_int (POINT_SUM st) * MULTIPLICATOR st"

text \<open>On an empty set the callback never runs and \<^verbatim>\<open>0 * 1 >= 10\<close> is false.\<close>

definition isDenialOfServiceAttacks :: "byteRange list \<Rightarrow> bool" where
  "isDenialOfServiceAttacks byteRangeSet =
     (case byteRangeSet of
        [] \<Rightarrow> False
      | first # _ \<Rightarrow> dosScore (dosScan first byteRangeSet) \<ge> of_int POINT_OF_NOT_SATISFABLE)"

subsection \<open>getRanges\<close>

record options =
  correctValues :: bool
  preventAtack :: bool
  optPartialMaxLength :: int

text \<open>The defaults of the destructured third parameter.\<close>

definition defaultOptions :: options where
  "defaultOptions = \<lparr>correctValues = False, preventAtack = True, optPartialMaxLength = 0\<rparr>"

text \<open>The options \<^verbatim>\<open>httpListener\<close> passes: \<^verbatim>\<open>{partialMaxLength}\<close>.\<close>

definition serverOptions :: options where
  "serverOptions = \<lparr>correctValues = False, preventAtack = True, optPartialMaxLength = partialMaxLength\<rparr>"

record ranges =
  byteRangeSet :: "byteRange list"
  length' :: int

text \<open>Lines 207 and 208: an empty group stays the empty string (\<open>None\<close>), any other
  becomes a number.\<close>

definition toNumber :: "string \<Rightarrow> int option" where
  "toNumber s = (if s = [] then None else Some (Number s))"

text \<open>Lines 210 to 217. In \<^verbatim>\<open>fileSize - end\<close> an empty string counts as 0.\<close>

definition expand :: "int \<Rightarrow> int option \<Rightarrow> int option \<Rightarrow> byteRange" where
  "expand fileSize s e =
     (case s of
        None \<Rightarrow> \<lparr>start = fileSize - (case e of None \<Rightarrow> 0 | Some n \<Rightarrow> n), end' = fileSize - 1\<rparr>
      | Some a \<Rightarrow> (case e of
                    None \<Rightarrow> \<lparr>start = a, end' = fileSize - 1\<rparr>
                  | Some b \<Rightarrow> \<lparr>start = a, end' = b\<rparr>))"

text \<open>Line 219.\<close>

definition limit :: "options \<Rightarrow> int \<Rightarrow> int \<Rightarrow> int" where
  "limit opts fileSize val =
     (if correctValues opts
      then (if val < 0 then 0 else (if val > fileSize - 1 then fileSize - 1 else val))
      else val)"

text \<open>Lines 223 to 225; 0 is falsy. The arithmetic is exact; \<open>truncateEndD\<close> below rounds
  as the code does.\<close>

definition truncateEnd :: "options \<Rightarrow> byteRange \<Rightarrow> byteRange" where
  "truncateEnd opts r =
     (if optPartialMaxLength opts \<noteq> 0 \<and> (end' r - start r + 1) > optPartialMaxLength opts
      then r\<lparr>end' := start r + optPartialMaxLength opts - 1\<rparr>
      else r)"

text \<open>The range as it stands after line 221, before the truncation; destructuring the
  \<^verbatim>\<open>null\<close> of a failed match throws a \<^verbatim>\<open>TypeError\<close>.\<close>

definition parsedRange :: "options \<Rightarrow> int \<Rightarrow> string \<Rightarrow> thrown + byteRange" where
  "parsedRange opts fileSize value =
     (case exec value of
        None \<Rightarrow> Inl runtimeError
      | Some (s, e) \<Rightarrow>
          (let r = expand fileSize (toNumber s) (toNumber e)
           in Inr \<lparr>start = limit opts fileSize (start r), end' = limit opts fileSize (end' r)\<rparr>))"

text \<open>The callback of line 205 over the comma-separated pieces, with the two
  accumulators \<^verbatim>\<open>byteRangeSet\<close> and \<^verbatim>\<open>length\<close>.\<close>

fun rangesForEach :: "options \<Rightarrow> int \<Rightarrow> string list \<Rightarrow> ranges \<Rightarrow> thrown + ranges" where
  "rangesForEach opts fileSize [] acc = Inr acc"
| "rangesForEach opts fileSize (value # rest) acc =
     (case parsedRange opts fileSize value of
        Inl err \<Rightarrow> Inl err
      | Inr p \<Rightarrow>
          (let r = truncateEnd opts p
           in rangesForEach opts fileSize rest
                \<lparr>byteRangeSet = byteRangeSet acc @ [r], length' = length' acc + (end' r - start r + 1)\<rparr>))"

text \<open>Without an equals sign \<^verbatim>\<open>byteRangeSetString\<close> is undefined and its
  \<^verbatim>\<open>split\<close> throws a \<^verbatim>\<open>TypeError\<close>.\<close>

definition getRanges :: "string \<Rightarrow> int \<Rightarrow> options \<Rightarrow> thrown + ranges" where
  "getRanges range' fileSize opts =
     (case split CHR ''='' (trim range') of
        [] \<Rightarrow> Inl runtimeError
      | bytesUnit # parts \<Rightarrow>
          if bytesUnit \<noteq> ''bytes'' then Inl BYTES_UNIT_NOT_VALID
          else (case parts of
                  [] \<Rightarrow> Inl runtimeError
                | byteRangeSetString # _ \<Rightarrow>
                    (case rangesForEach opts fileSize (split CHR '','' byteRangeSetString)
                            \<lparr>byteRangeSet = [], length' = 0\<rparr> of
                       Inl err \<Rightarrow> Inl err
                     | Inr res \<Rightarrow>
                         if preventAtack opts \<and> isDenialOfServiceAttacks (byteRangeSet res)
                         then Inl (RANGE_NOT_SATISFABLE\<lparr>errFileSize := Some fileSize\<rparr>)
                         else Inr res)))"

subsection \<open>The file and its byte spans\<close>

text \<open>
  What the file system gives the server about the file the request names: its base name,
  its extension and its bytes (\<^verbatim>\<open>fs.statSync(filePath).size\<close> is their number).
\<close>

record fileInfo =
  fileName :: string
  fileExtension :: string
  content :: string

text \<open>
  The bytes a stream of \<^verbatim>\<open>fs.createReadStream(filePath, {start, end})\<close> delivers: the
  bytes \<open>start\<close> to \<open>end\<close>, both inclusive, as far as the file has them. The call throws
  \<^verbatim>\<open>ERR_OUT_OF_RANGE\<close> at once when an offset is negative or \<open>start\<close> is past \<open>end\<close>.
  Node documents offsets up to \<open>2^53 - 1\<close> only; larger ones are not told apart here.
\<close>

definition createReadStream :: "string \<Rightarrow> int \<Rightarrow> int \<Rightarrow> thrown + string" where
  "createReadStream bytes s e =
     (if s < 0 \<or> e < 0 \<or> s > e then Inl runtimeError
      else Inr (take (nat (e - s + 1)) (drop (nat s) bytes)))"

subsection \<open>getContentInfo\<close>

definition rangesContentTypes :: "string \<rightharpoonup> string" where
  "rangesContentTypes =
     [''.mp4'' \<mapsto> ''audio/mp4'', ''.txt'' \<mapsto> ''text'', ''.html'' \<mapsto> ''text/html; charset=UTF-8'']"

record contentInfo =
  rangeSupport :: bool
  type' :: string

definition getContentInfo :: "string \<Rightarrow> contentInfo" where
  "getContentInfo extension =
     (case rangesContentTypes extension of
        None \<Rightarrow> \<lparr>rangeSupport = False, type' = ''application/octet-stream''\<rparr>
      | Some t \<Rightarrow> \<lparr>rangeSupport = True, type' = t\<rparr>)"

subsection \<open>partialContentHeaders\<close>

record partialHeaders =
  headers :: "string list"
  size' :: int

text \<open>The header block of the part at \<open>index\<close> (lines 150 to 154).\<close>

definition partHeader :: "nat \<Rightarrow> byteRange \<Rightarrow> string \<Rightarrow> string \<Rightarrow> int \<Rightarrow> string" where
  "partHeader index r boundary contentType fileSize =
     (if index \<noteq> 0 then CRLF else []) @ ''--'' @ boundary @ CRLF
     @ ''Content-Type: '' @ contentType @ CRLF
     @ ''Content-Range: bytes '' @ showInt (start r) @ ''-'' @ showInt (end' r) @ ''/'' @ showInt fileSize @ CRLF
     @ CRLF"

fun headersForEach ::
  "string \<Rightarrow> string \<Rightarrow> int \<Rightarrow> nat \<Rightarrow> byteRange list \<Rightarrow> partialHeaders \<Rightarrow> partialHeaders" where
  "headersForEach boundary contentType fileSize index [] acc = acc"
| "headersForEach boundary contentType fileSize index (r # rest) acc =
     (let header = partHeader index r boundary contentType fileSize
      in headersForEach boundary contentType fileSize (Suc index) rest
           \<lparr>headers = headers acc @ [header], size' = size' acc + int (length header)\<rparr>)"

definition partialContentHeaders :: "byteRange list \<Rightarrow> string \<Rightarrow> string \<Rightarrow> int \<Rightarrow> partialHeaders" where
  "partialContentHeaders rs boundary contentType fileSize =
     headersForEach boundary contentType fileSize 0 rs \<lparr>headers = [], size' = 0\<rparr>"

subsection \<open>responseAllStream\<close>

text \<open>
  The bytes written to the response, \<open>out\<close> being those written so far: each call shifts
  one stream and one header, writes the header, then the whole stream, and goes on while
  streams are left. A stream is given by the bytes it delivers. With a stream but no header
  \<^verbatim>\<open>response.write(undefined)\<close> throws, and the promise is rejected.
\<close>

fun responseAllStream :: "string list \<Rightarrow> string list \<Rightarrow> string \<Rightarrow> thrown + string" where
  "responseAllStream [] hs out = Inr out"
| "responseAllStream (readableStream # streams) [] out = Inl runtimeError"
| "responseAllStream (readableStream # streams) (partialHeader # hs) out =
     (let out' = out @ partialHeader @ readableStream
      in if length streams > 0 then responseAllStream streams hs out' else Inr out')"

subsection \<open>httpListener\<close>

record request = method' :: string  rangeHeader :: "string option"

record response =
  statusCode :: int
  statusMessage :: string
  header :: "string \<rightharpoonup> string"
  body :: string

text \<open>A response nothing has been set on yet: status 200, no header, no byte.\<close>

definition newResponse :: response where
  "newResponse = \<lparr>statusCode = 200, statusMessage = [], header = Map.empty, body = []\<rparr>"

definition setHeader :: "string \<Rightarrow> string \<Rightarrow> response \<Rightarrow> response" where
  "setHeader name v res = res\<lparr>header := (header res)(name \<mapsto> v)\<rparr>"

text \<open>In a template literal a missing property reads \<^verbatim>\<open>undefined\<close>.\<close>

definition showProperty :: "int option \<Rightarrow> string" where
  "showProperty p = (case p of None \<Rightarrow> ''undefined'' | Some n \<Rightarrow> showInt n)"

text \<open>The \<^verbatim>\<open>catch\<close> clause (lines 119 to 132), on the response as the \<^verbatim>\<open>try\<close> block
  left it. \<^verbatim>\<open>x || y\<close> is \<open>y\<close> when \<open>x\<close> is missing, 0 or the empty string.\<close>

definition catchError :: "thrown \<Rightarrow> response \<Rightarrow> response" where
  "catchError error res =
     (let r1 = res\<lparr>statusCode := (case errStatusCode error of
                                     None \<Rightarrow> 500 | Some c \<Rightarrow> if c = 0 then 500 else c),
                   statusMessage := (case errStatusMessage error of
                                       None \<Rightarrow> ''Internal Server Error''
                                     | Some m \<Rightarrow> if m = [] then ''Internal Server Error'' else m)\<rparr>
      in if errStatusCode error = errStatusCode RANGE_NOT_SATISFABLE
         then setHeader ''Content-Range'' (''bytes */'' @ showProperty (errFileSize error)) r1
         else if errStatusCode error = errStatusCode METHOD_NOT_ALLOWED
         then setHeader ''Allow'' ''GET,HEAD'' r1
         else r1)"

text \<open>The streams of line 84, in the order of the set: the first call that throws ends
  the loop.\<close>

fun createStreams :: "string \<Rightarrow> byteRange list \<Rightarrow> thrown + string list" where
  "createStreams bytes [] = Inr []"
| "createStreams bytes (value # rest) =
     (case createReadStream bytes (start value) (end' value) of
        Inl err \<Rightarrow> Inl err
      | Inr stream \<Rightarrow> (case createStreams bytes rest of
                         Inl err \<Rightarrow> Inl err
                       | Inr streams \<Rightarrow> Inr (stream # streams)))"

text \<open>Lines 69 to 92: more than one range. A stream that fails while it is read is not
  modelled: the file is held whole.\<close>

definition multiRange :: "string \<Rightarrow> fileInfo \<Rightarrow> request \<Rightarrow> string \<Rightarrow> ranges \<Rightarrow> response \<Rightarrow> response" where
  "multiRange boundary f req contentType rs res =
     (let fileSize = int (length (content f));
          ph = partialContentHeaders (byteRangeSet rs) boundary contentType fileSize;
          endBoundary = CRLF @ ''--'' @ boundary @ ''--'';
          r1 = setHeader ''Content-Type'' (''multipart/byteranges; boundary='' @ boundary) res;
          r2 = setHeader ''Content-Length''
                 (showInt (length' rs + size' ph + int (length endBoundary))) r1
      in if method' req = ''HEAD'' then r2
         else (case createStreams (content f) (byteRangeSet rs) of
                 Inl err \<Rightarrow> catchError err r2
               | Inr streams \<Rightarrow>
                   (case responseAllStream streams (headers ph) [] of
                      Inl err \<Rightarrow> r2
                    | Inr written \<Rightarrow> r2\<lparr>body := written @ endBoundary\<rparr>)))"

text \<open>Lines 94 to 105: one range. Destructuring the first element of an empty set would
  throw.\<close>

definition singleRange :: "fileInfo \<Rightarrow> request \<Rightarrow> ranges \<Rightarrow> response \<Rightarrow> response" where
  "singleRange f req rs res =
     (case byteRangeSet rs of
        [] \<Rightarrow> catchError runtimeError res
      | r # _ \<Rightarrow>
          (let fileSize = int (length (content f));
               r1 = setHeader ''Content-Range''
                      (''bytes '' @ showInt (start r) @ ''-'' @ showInt (end' r) @ ''/'' @ showInt fileSize) res
           in if method' req = ''HEAD'' then r1
              else (case createReadStream (content f) (start r) (end' r) of
                      Inl err \<Rightarrow> catchError err r1
                    | Inr stream \<Rightarrow> r1\<lparr>body := stream\<rparr>)))"

text \<open>Lines 52 to 62: the status and the headers set before the \<^verbatim>\<open>Range\<close> header is
  looked at.\<close>

definition prepareHeaders :: "fileInfo \<Rightarrow> response" where
  "prepareHeaders f =
     (let contentInfo = getContentInfo (fileExtension f);
          fileSize = int (length (content f));
          r1 = setHeader ''Cache-Control'' ''no-cache''
                 (setHeader ''Content-Length'' (showInt fileSize)
                   (setHeader ''Content-Type'' (type' contentInfo)
                     (newResponse\<lparr>statusCode := 200, statusMessage := ''OK''\<rparr>)))
      in if rangeSupport contentInfo then setHeader ''Accept-Ranges'' ''bytes'' r1 else r1)"

text \<open>
  \<open>boundary\<close> is what \<^verbatim>\<open>uuid4()\<close> returns for this request, \<open>target\<close> the file the URL
  names (\<open>None\<close> when \<^verbatim>\<open>fs.existsSync\<close> is false). An empty \<^verbatim>\<open>Range\<close> header is
  falsy and counts as none.
\<close>

definition httpListener :: "string \<Rightarrow> fileInfo option \<Rightarrow> request \<Rightarrow> response" where
  "httpListener boundary target req =
     (if method' req \<notin> set [''GET'', ''HEAD''] then catchError METHOD_NOT_ALLOWED newResponse
      else (case target of
              None \<Rightarrow> catchError NOT_FOUND newResponse
            | Some f \<Rightarrow>
                (let contentInfo = getContentInfo (fileExtension f);
                     fileSize = int (length (content f));
                     r2 = prepareHeaders f
                 in if rangeSupport contentInfo \<and> rangeHeader req \<noteq> None \<and> rangeHeader req \<noteq> Some []
                    then (let r3 = r2\<lparr>statusCode := 206\<rparr>
                          in (case getRanges (the (rangeHeader req)) fileSize serverOptions of
                                Inl err \<Rightarrow> catchError err r3
                              | Inr rs \<Rightarrow>
                                  if length (byteRangeSet rs) > 1
                                  then multiRange boundary f req (type' contentInfo) rs r3
                                  else singleRange f req rs r3))
                    else (let r3 = setHeader ''Content-Disposition''
                                     (''attachment; filename='' @ [CHR 0x22] @ fileName f @ [CHR 0x22]) r2
                          in if method' req = ''HEAD'' then r3 else r3\<lparr>body := content f\<rparr>))))"

subsection \<open>The loop of getRanges in double precision\<close>

text \<open>
  A JavaScript number is a double. The definitions above compute on exact integers, and
  so does the code as long as no number leaves the range from \<open>-2^53\<close> to \<open>2^53\<close>; beyond
  it the code rounds. The definitions of this subsection follow the loop of lines 205 to
  228 once more, with the rounding of every operation. A finite double with an integer
  value is written as that integer. The file size and the option \<^verbatim>\<open>partialMaxLength\<close> are
  numbers of the program, doubles already.
\<close>

text \<open>How many low bits of a non-negative integer a significand of 53 bits cannot hold.\<close>

function dropBits :: "int \<Rightarrow> nat" where
  "dropBits x = (if x < 9007199254740992 then 0 else Suc (dropBits (x div 2)))"
  by pat_completeness auto
termination
  by (relation "measure nat") auto

declare dropBits.simps [simp del]

text \<open>
  The double nearest to the integer \<open>x\<close>, a tie going to the even significand: what
  \<^verbatim>\<open>Number\<close>, \<^verbatim>\<open>+\<close> and \<^verbatim>\<open>-\<close> return when the exact result is \<open>x\<close>. \<open>None\<close> stands for
  a result beyond the finite doubles (\<^verbatim>\<open>Infinity\<close>, and the \<^verbatim>\<open>NaN\<close> that can follow from
  it), which these definitions do not follow further.
\<close>

definition toDouble :: "int \<Rightarrow> int option" where
  "toDouble x =
     (let a = \<bar>x\<bar>; e = dropBits a; q = a div 2 ^ e; r = a mod 2 ^ e;
          m = (if 2 * r > 2 ^ e \<or> (2 * r = 2 ^ e \<and> odd q) then q + 1 else q) * 2 ^ e
      in if m \<ge> 2 ^ 1024 then None else Some (sgn x * m))"

text \<open>Lines 207 and 208; the inner \<open>None\<close> is the empty string.\<close>

definition toNumberD :: "string \<Rightarrow> int option option" where
  "toNumberD s = (if s = [] then Some None else map_option Some (toDouble (Number s)))"

text \<open>Lines 210 to 217.\<close>

definition expandD :: "int \<Rightarrow> int option \<Rightarrow> int option \<Rightarrow> byteRange option" where
  "expandD fileSize s e =
     (case s of
        None \<Rightarrow>
          Option.bind (toDouble (fileSize - (case e of None \<Rightarrow> 0 | Some n \<Rightarrow> n))) (\<lambda>a.
          Option.bind (toDouble (fileSize - 1)) (\<lambda>b.
          Some \<lparr>start = a, end' = b\<rparr>))
      | Some a \<Rightarrow>
          (case e of
             None \<Rightarrow> Option.bind (toDouble (fileSize - 1)) (\<lambda>b. Some \<lparr>start = a, end' = b\<rparr>)
           | Some b \<Rightarrow> Some \<lparr>start = a, end' = b\<rparr>))"

text \<open>Line 219.\<close>

definition limitD :: "options \<Rightarrow> int \<Rightarrow> int \<Rightarrow> int option" where
  "limitD opts fileSize val =
     (if correctValues opts
      then (if val < 0 then Some 0
            else Option.bind (toDouble (fileSize - 1)) (\<lambda>m. Some (if val > m then m else val)))
      else Some val)"

text \<open>\<^verbatim>\<open>end - start + 1\<close>, a subtraction and then an addition.\<close>

definition widthD :: "byteRange \<Rightarrow> int option" where
  "widthD r = Option.bind (toDouble (end' r - start r)) (\<lambda>d. toDouble (d + 1))"

text \<open>Lines 223 to 225; \<^verbatim>\<open>start + partialMaxLength - 1\<close> is an addition and then a
  subtraction.\<close>

definition truncateEndD :: "options \<Rightarrow> byteRange \<Rightarrow> byteRange option" where
  "truncateEndD opts r =
     (if optPartialMaxLength opts \<noteq> 0
      then Option.bind (widthD r) (\<lambda>w.
             if w > optPartialMaxLength opts
             then Option.bind (toDouble (start r + optPartialMaxLength opts)) (\<lambda>a.
                  Option.bind (toDouble (a - 1)) (\<lambda>b.
                  Some (r\<lparr>end' := b\<rparr>)))
             else Some r)
      else Some r)"

text \<open>The range as it stands after line 221.\<close>

definition parsedRangeD :: "options \<Rightarrow> int \<Rightarrow> string \<Rightarrow> (thrown + byteRange) option" where
  "parsedRangeD opts fileSize value =
     (case exec value of
        None \<Rightarrow> Some (Inl runtimeError)
      | Some (s, e) \<Rightarrow>
          Option.bind (toNumberD s) (\<lambda>sn.
          Option.bind (toNumberD e) (\<lambda>en.
          Option.bind (expandD fileSize sn en) (\<lambda>r.
          Option.bind (limitD opts fileSize (start r)) (\<lambda>a.
          Option.bind (limitD opts fileSize (end' r)) (\<lambda>b.
          Some (Inr \<lparr>start = a, end' = b\<rparr>)))))))"

text \<open>The callback of line 205 over the pieces, with line 226 rounding the running
  \<^verbatim>\<open>length\<close>.\<close>

fun rangesForEachD :: "options \<Rightarrow> int \<Rightarrow> string list \<Rightarrow> ranges \<Rightarrow> (thrown + ranges) option" where
  "rangesForEachD opts fileSize [] acc = Some (Inr acc)"
| "rangesForEachD opts fileSize (value # rest) acc =
     (case parsedRangeD opts fileSize value of
        None \<Rightarrow> None
      | Some (Inl err) \<Rightarrow> Some (Inl err)
      | Some (Inr p) \<Rightarrow>
          Option.bind (truncateEndD opts p) (\<lambda>r.
          Option.bind (widthD r) (\<lambda>w.
          Option.bind (toDouble (length' acc + w)) (\<lambda>l.
          rangesForEachD opts fileSize rest
            \<lparr>byteRangeSet = byteRangeSet acc @ [r], length' = l\<rparr>))))"

text \<open>The running total of line 226 over the ranges pushed so far.\<close>

fun sumD :: "int \<Rightarrow> byteRange list \<Rightarrow> int option" where
  "sumD l [] = Some l"
| "sumD l (r # rs) =
     Option.bind (widthD r) (\<lambda>w.
     Option.bind (toDouble (l + w)) (\<lambda>l'. sumD l' rs))"

text \<open>A range whose ends and whose \<open>end - start\<close> and \<open>end - start + 1\<close> are exact in double
  precision.\<close>

definition exactRange :: "byteRange \<Rightarrow> bool" where
  "exactRange r \<longleftrightarrow>
     \<bar>start r\<bar> < 2 ^ 53 \<and> \<bar>end' r\<bar> < 2 ^ 53 \<and> - (2 ^ 53) \<le> end' r - start r \<and> end' r - start r < 2 ^ 53"

subsection \<open>Notions the properties are stated in\<close>

text \<open>The width of a range, both ends inclusive, and the bytes it names.\<close>

definition width :: "byteRange \<Rightarrow> int" where
  "width r = end' r - start r + 1"


text \<open>How many pairs of consecutive parts pass the test of line 265.\<close>

fun crossCount :: "byteRange list \<Rightarrow> nat" where
  "crossCount (a # b # rs) = (if crossRange a b then 1 else 0) + crossCount (b # rs)"
| "crossCount rs = 0"

text \<open>The bytes of the file a range names: none outside the file.\<close>

definition fileSpan :: "string \<Rightarrow> byteRange \<Rightarrow> string" where
  "fileSpan bytes r = take (nat (end' r - start r + 1)) (drop (nat (start r)) bytes)"

section \<open>Properties of the scorer\<close>

lemma dosStep_POINT_SUM:
  "POINT_SUM (dosStep st i v) =
     POINT_SUM st + (if end' v < start v then 10 else 0)
       + (if end' v - start v < 65536 then 2 else 0)
       + (if 0 < i \<and> crossRange (check st) v then 3 else 0)"
  by (simp add: dosStep_def Let_def POINT_OF_NOT_SATISFABLE_def POINT_SMALL_RANGE_def
      POINT_CROSS_RANGE_def SMALL_RANGE_def)

lemma dosStep_MULTIPLICATOR:
  "MULTIPLICATOR (dosStep st i v) =
     (if 0 < i \<and> end' (check st) < start v then 3 / 2 else MULTIPLICATOR st)"
  by (simp add: dosStep_def Let_def POINT_NOT_SORTED_MULTIPLICATOR_def)

lemma dosStep_check: "check (dosStep st i v) = v"
  by (simp add: dosStep_def Let_def)

lemma dosForEach_snoc:
  "dosForEach st i (ps @ [v]) = dosStep (dosForEach st i ps) (i + length ps) v"
  by (induction ps arbitrary: st i) simp_all

lemma dosForEach_check:
  "ps \<noteq> [] \<Longrightarrow> check (dosForEach st i ps) = last ps"
  by (induction ps arbitrary: st i rule: rev_induct) (simp_all add: dosForEach_snoc dosStep_check)

lemma dosStep_mono: "POINT_SUM st \<le> POINT_SUM (dosStep st i v)"
  by (simp add: dosStep_POINT_SUM)

lemma dosForEach_mono: "POINT_SUM st \<le> POINT_SUM (dosForEach st i rs)"
proof (induction rs arbitrary: st i)
  case Nil
  show ?case by simp
next
  case (Cons v rs)
  have "POINT_SUM st \<le> POINT_SUM (dosStep st i v)" by (rule dosStep_mono)
  also have "\<dots> \<le> POINT_SUM (dosForEach (dosStep st i v) (Suc i) rs)" by (rule Cons.IH)
  finally show ?case by simp
qed

lemma dosForEach_malformed:
  "v \<in> set rs \<Longrightarrow> end' v < start v \<Longrightarrow> POINT_SUM st + 10 \<le> POINT_SUM (dosForEach st i rs)"
proof (induction rs arbitrary: st i)
  case Nil
  then show ?case by simp
next
  case (Cons a rs)
  show ?case
  proof (cases "v = a")
    case True
    have "POINT_SUM st + 10 \<le> POINT_SUM (dosStep st i a)"
      using Cons.prems(2) True by (simp add: dosStep_POINT_SUM)
    also have "\<dots> \<le> POINT_SUM (dosForEach (dosStep st i a) (Suc i) rs)" by (rule dosForEach_mono)
    finally show ?thesis by simp
  next
    case False
    then have "v \<in> set rs" using Cons.prems(1) by simp
    then have "POINT_SUM (dosStep st i a) + 10 \<le> POINT_SUM (dosForEach (dosStep st i a) (Suc i) rs)"
      using Cons.prems(2) by (rule Cons.IH)
    moreover have "POINT_SUM st \<le> POINT_SUM (dosStep st i a)" by (rule dosStep_mono)
    ultimately show ?thesis by simp
  qed
qed

lemma dosForEach_MULTIPLICATOR_ge:
  "1 \<le> MULTIPLICATOR st \<Longrightarrow> 1 \<le> MULTIPLICATOR (dosForEach st i rs)"
  by (induction rs arbitrary: st i) (simp_all add: dosStep_MULTIPLICATOR)

lemma dosScore_ge:
  assumes "1 \<le> MULTIPLICATOR st" "n \<le> POINT_SUM st" "0 \<le> n"
  shows "of_int n \<le> dosScore st"
proof -
  have "(of_int n :: rat) * 1 \<le> of_int (POINT_SUM st) * MULTIPLICATOR st"
    using assms by (intro mult_mono) simp_all
  then show ?thesis by (simp add: dosScore_def)
qed

lemma malformed_isDenialOfServiceAttacks:
  assumes "v \<in> set rs" "end' v < start v"
  shows "isDenialOfServiceAttacks rs"
proof (cases rs)
  case Nil
  with assms show ?thesis by simp
next
  case (Cons first rest)
  let ?st = "dosScan first rs"
  have "10 \<le> POINT_SUM ?st"
    using dosForEach_malformed[OF assms, of "\<lparr>POINT_SUM = 0, MULTIPLICATOR = 1, check = first\<rparr>" 0]
    by (simp add: dosScan_def)
  moreover have "1 \<le> MULTIPLICATOR ?st"
    unfolding dosScan_def by (rule dosForEach_MULTIPLICATOR_ge) simp
  ultimately have "of_int 10 \<le> dosScore ?st" by (intro dosScore_ge) simp_all
  then show ?thesis using Cons by (simp add: isDenialOfServiceAttacks_def POINT_OF_NOT_SATISFABLE_def)
qed

lemma dosForEach_points:
  "POINT_SUM (dosForEach st (Suc i) rs) =
     POINT_SUM st + 10 * int (length (filter (\<lambda>r. end' r < start r) rs))
       + 2 * int (length (filter (\<lambda>r. end' r - start r < 65536) rs))
       + 3 * int (crossCount (check st # rs))"
proof (induction rs arbitrary: st i)
  case Nil
  show ?case by simp
next
  case (Cons v rs)
  show ?case
    by (simp add: Cons.IH dosStep_POINT_SUM dosStep_check)
qed

lemma dosScan_points:
  "POINT_SUM (dosScan first rs) =
     10 * int (length (filter (\<lambda>r. end' r < start r) rs))
       + 2 * int (length (filter (\<lambda>r. end' r - start r < 65536) rs))
       + 3 * int (crossCount rs)"
proof (cases rs)
  case Nil
  then show ?thesis by (simp add: dosScan_def)
next
  case (Cons v vs)
  then show ?thesis
    by (simp add: dosScan_def dosForEach_points dosStep_POINT_SUM dosStep_check)
qed




section \<open>Properties of getRanges\<close>

lemma truncateEnd_start: "start (truncateEnd opts p) = start p"
  by (simp add: truncateEnd_def)

lemma rangesForEach_acc:
  "rangesForEach opts fileSize vs acc = Inr res \<Longrightarrow>
     \<exists>ps. list_all2 (\<lambda>v p. parsedRange opts fileSize v = Inr p) vs ps
        \<and> byteRangeSet res = byteRangeSet acc @ map (truncateEnd opts) ps
        \<and> length' res = length' acc + sum_list (map width (map (truncateEnd opts) ps))"
proof (induction vs arbitrary: acc)
  case Nil
  then show ?case by simp
next
  case (Cons v vs)
  from Cons.prems obtain p where p: "parsedRange opts fileSize v = Inr p"
    by (auto split: sum.splits)
  let ?acc = "\<lparr>byteRangeSet = byteRangeSet acc @ [truncateEnd opts p],
               length' = length' acc + (end' (truncateEnd opts p) - start (truncateEnd opts p) + 1)\<rparr>"
  from Cons.prems p have "rangesForEach opts fileSize vs ?acc = Inr res"
    by (simp add: Let_def)
  from Cons.IH[OF this] obtain ps where
    ps: "list_all2 (\<lambda>v p. parsedRange opts fileSize v = Inr p) vs ps"
      "byteRangeSet res = byteRangeSet ?acc @ map (truncateEnd opts) ps"
      "length' res = length' ?acc + sum_list (map width (map (truncateEnd opts) ps))"
    by blast
  have "list_all2 (\<lambda>v p. parsedRange opts fileSize v = Inr p) (v # vs) (p # ps)"
    using p ps(1) by simp
  moreover have "byteRangeSet res = byteRangeSet acc @ map (truncateEnd opts) (p # ps)"
    using ps(2) by simp
  moreover have "length' res = length' acc + sum_list (map width (map (truncateEnd opts) (p # ps)))"
    using ps(3) by (simp add: width_def)
  ultimately show ?case by blast
qed

lemma rangesForEach_init:
  assumes "rangesForEach opts fileSize vs \<lparr>byteRangeSet = [], length' = 0\<rparr> = Inr res"
  shows "\<exists>ps. list_all2 (\<lambda>v p. parsedRange opts fileSize v = Inr p) vs ps
        \<and> byteRangeSet res = map (truncateEnd opts) ps
        \<and> length' res = sum_list (map width (byteRangeSet res))"
  using rangesForEach_acc[OF assms] by auto

lemma getRanges_Inr:
  assumes "getRanges hdr fileSize opts = Inr res"
  shows "\<exists>spec rest. split CHR ''='' (trim hdr) = ''bytes'' # spec # rest
           \<and> rangesForEach opts fileSize (split CHR '','' spec) \<lparr>byteRangeSet = [], length' = 0\<rparr> = Inr res
           \<and> \<not> (preventAtack opts \<and> isDenialOfServiceAttacks (byteRangeSet res))"
  using assms unfolding getRanges_def
  by (auto split: list.splits if_splits sum.splits)

lemma getRanges_length':
  assumes "getRanges hdr fileSize opts = Inr res"
  shows "length' res = sum_list (map width (byteRangeSet res))"
  using getRanges_Inr[OF assms] rangesForEach_init by blast

lemma getRanges_wellformed:
  assumes "getRanges hdr fileSize opts = Inr res" "preventAtack opts" "r \<in> set (byteRangeSet res)"
  shows "start r \<le> end' r"
proof (rule ccontr)
  assume "\<not> start r \<le> end' r"
  then have "end' r < start r" by simp
  with assms(3) have "isDenialOfServiceAttacks (byteRangeSet res)"
    by (rule malformed_isDenialOfServiceAttacks)
  with getRanges_Inr[OF assms(1)] assms(2) show False by blast
qed

lemma split_nonempty: "split sep s \<noteq> []"
  by (induction s) (auto split: list.splits)

lemma getRanges_nonempty:
  assumes "getRanges hdr fileSize opts = Inr res"
  shows "byteRangeSet res \<noteq> []"
proof -
  from getRanges_Inr[OF assms] obtain spec where
    "rangesForEach opts fileSize (split CHR '','' spec) \<lparr>byteRangeSet = [], length' = 0\<rparr> = Inr res"
    by blast
  from rangesForEach_init[OF this] obtain ps where
    "list_all2 (\<lambda>v p. parsedRange opts fileSize v = Inr p) (split CHR '','' spec) ps"
    "byteRangeSet res = map (truncateEnd opts) ps" by blast
  then have "length (byteRangeSet res) = length (split CHR '','' spec)"
    by (simp add: list_all2_lengthD)
  then show ?thesis using split_nonempty[of "CHR '',''" spec] by auto
qed

section \<open>Properties of httpListener\<close>

lemma header_catchError_Content_Length:
  "header (catchError err res) ''Content-Length'' = header res ''Content-Length''"
  by (simp add: catchError_def Let_def setHeader_def)

lemma header_prepareHeaders_Content_Length:
  "header (prepareHeaders f) ''Content-Length'' = Some (showInt (int (length (content f))))"
  by (simp add: prepareHeaders_def Let_def setHeader_def)

lemma body_prepareHeaders: "body (prepareHeaders f) = []"
  by (simp add: prepareHeaders_def Let_def setHeader_def newResponse_def)

lemma httpListener_range:
  assumes "method' req = ''GET'' \<or> method' req = ''HEAD''"
    and "rangeSupport (getContentInfo (fileExtension f))"
    and "rangeHeader req = Some h" and "h \<noteq> []"
  shows "httpListener boundary (Some f) req =
     (case getRanges h (int (length (content f))) serverOptions of
        Inl err \<Rightarrow> catchError err ((prepareHeaders f)\<lparr>statusCode := 206\<rparr>)
      | Inr rs \<Rightarrow>
          if length (byteRangeSet rs) > 1
          then multiRange boundary f req (type' (getContentInfo (fileExtension f))) rs
                 ((prepareHeaders f)\<lparr>statusCode := 206\<rparr>)
          else singleRange f req rs ((prepareHeaders f)\<lparr>statusCode := 206\<rparr>))"
  using assms by (auto simp: httpListener_def Let_def)

lemma singleRange_Content_Length:
  "header (singleRange f req rs res) ''Content-Length'' = header res ''Content-Length''"
  by (simp add: singleRange_def Let_def setHeader_def header_catchError_Content_Length
      split: list.splits sum.splits)

lemma singleRange_GET:
  assumes "method' req = ''GET''" "byteRangeSet rs = r # others" "0 \<le> start r" "start r \<le> end' r"
  shows "body (singleRange f req rs res) = fileSpan (content f) r"
    and "statusCode (singleRange f req rs res) = statusCode res"
  using assms by (simp_all add: singleRange_def Let_def setHeader_def createReadStream_def fileSpan_def)

section \<open>Properties of the string primitives\<close>

lemma isDigit_char_of: "(d::nat) < 10 \<Longrightarrow> isDigit (char_of (48 + d))"
  by (simp add: isDigit_def)

lemma digitValue_char_of: "(d::nat) < 10 \<Longrightarrow> digitValue (char_of (48 + d)) = int d"
  by (simp add: digitValue_def)

lemma showNat_small: "n < 10 \<Longrightarrow> showNat n = [char_of (48 + n)]"
  by (subst showNat.simps) simp

lemma showNat_large: "\<not> n < 10 \<Longrightarrow> showNat n = showNat (n div 10) @ [char_of (48 + n mod 10)]"
  by (subst showNat.simps) simp

lemma showNat_digits: "c \<in> set (showNat n) \<Longrightarrow> isDigit c"
proof (induction n rule: showNat.induct)
  case (1 n)
  show ?case
  proof (cases "n < 10")
    case True
    with "1.prems" show ?thesis by (simp add: showNat_small isDigit_char_of)
  next
    case False
    with "1.prems" have "c \<in> set (showNat (n div 10)) \<or> c = char_of (48 + n mod 10)"
      by (auto simp: showNat_large)
    then show ?thesis
      using "1.IH"[OF False] isDigit_char_of[of "n mod 10"] by auto
  qed
qed

lemma showNat_nonempty: "showNat n \<noteq> []"
  by (cases "n < 10") (simp_all add: showNat_small showNat_large)

lemma Number_snoc: "Number (ds @ [c]) = 10 * Number ds + digitValue c"
  by (simp add: Number_def)

lemma Number_showNat: "Number (showNat n) = int n"
proof (induction n rule: showNat.induct)
  case (1 n)
  show ?case
  proof (cases "n < 10")
    case True
    then show ?thesis by (simp add: showNat_small Number_def digitValue_char_of)
  next
    case False
    have "Number (showNat n) = 10 * Number (showNat (n div 10)) + digitValue (char_of (48 + n mod 10))"
      using False by (simp add: showNat_large Number_snoc)
    also have "\<dots> = 10 * int (n div 10) + int (n mod 10)"
      using "1.IH"[OF False] by (simp add: digitValue_char_of)
    also have "\<dots> = int n" by (simp add: zdiv_int zmod_int)
    finally show ?thesis .
  qed
qed

lemma isDigit_not_special:
  assumes "isDigit c"
  shows "c \<noteq> CHR ''-''" "c \<noteq> CHR ''=''" "c \<noteq> CHR '',''" "\<not> isWhiteSpace c"
  using assms by (auto simp: isDigit_def isWhiteSpace_def)

lemma trim_id:
  assumes "s \<noteq> []" "\<not> isWhiteSpace (hd s)" "\<not> isWhiteSpace (last s)"
  shows "trim s = s"
proof -
  from assms(1,2) have a: "dropWhile isWhiteSpace s = s" by (cases s) simp_all
  from assms(1,3) have "dropWhile isWhiteSpace (rev s) = rev s"
    by (cases "rev s") (simp_all add: last_rev[symmetric] hd_rev)
  with a show ?thesis by (simp add: trim_def)
qed

lemma split_none: "sep \<notin> set s \<Longrightarrow> split sep s = [s]"
  by (induction s) auto

lemma split_first: "sep \<notin> set a \<Longrightarrow> split sep (a @ sep # t) = a # split sep t"
  by (induction a) auto

lemma exec_match: "matchHere s = Some m \<Longrightarrow> exec s = Some m"
  by (cases s) simp_all

lemma matchHere_digits:
  assumes "\<forall>c\<in>set ds. isDigit c" "\<forall>c\<in>set es. isDigit c"
  shows "matchHere (ds @ CHR ''-'' # es) = Some (ds, es)"
proof -
  have n: "\<not> isDigit CHR ''-''" by (simp add: isDigit_def)
  have "dropWhile isDigit (ds @ CHR ''-'' # es) = CHR ''-'' # es"
    using assms(1) n by (simp add: dropWhile_append3)
  moreover have "takeWhile isDigit (ds @ CHR ''-'' # es) = ds"
    using assms(1) n by (simp add: takeWhile_tail)
  moreover have "takeWhile isDigit es = es" using assms(2) by simp
  ultimately show ?thesis by (simp add: matchHere_def)
qed

lemma exec_digits:
  assumes "\<forall>c\<in>set ds. isDigit c" "\<forall>c\<in>set es. isDigit c"
  shows "exec (ds @ CHR ''-'' # es) = Some (ds, es)"
  using matchHere_digits[OF assms] by (rule exec_match)

section \<open>A header of one piece\<close>

lemma single_wellformed_not_attack:
  assumes "start r \<le> end' r"
  shows "\<not> isDenialOfServiceAttacks [r]"
proof -
  have "POINT_SUM (dosScan r [r]) \<le> 2"
    using assms by (simp add: dosScan_points)
  moreover have "MULTIPLICATOR (dosScan r [r]) = 1"
    by (simp add: dosScan_def dosStep_MULTIPLICATOR)
  ultimately have "dosScore (dosScan r [r]) \<le> 2"
    by (simp add: dosScore_def)
  then show ?thesis
    by (simp add: isDenialOfServiceAttacks_def POINT_OF_NOT_SATISFABLE_def)
qed

lemma getRanges_one_piece:
  assumes ds: "\<forall>c\<in>set ds. isDigit c" and es: "\<forall>c\<in>set es. isDigit c"
  shows "getRanges (''bytes='' @ ds @ CHR ''-'' # es) fileSize opts =
     (let p = expand fileSize (toNumber ds) (toNumber es);
          r = truncateEnd opts \<lparr>start = limit opts fileSize (start p), end' = limit opts fileSize (end' p)\<rparr>
      in if preventAtack opts \<and> isDenialOfServiceAttacks [r]
         then Inl (RANGE_NOT_SATISFABLE\<lparr>errFileSize := Some fileSize\<rparr>)
         else Inr \<lparr>byteRangeSet = [r], length' = end' r - start r + 1\<rparr>)"
proof -
  let ?t = "ds @ CHR ''-'' # es"
  have l: "\<not> isWhiteSpace (last (''bytes='' @ ?t))"
  proof (cases "es = []")
    case True
    then show ?thesis by (simp add: isWhiteSpace_def)
  next
    case False
    then have "last (''bytes='' @ ?t) = last es" by simp
    moreover have "last es \<in> set es" using False by simp
    ultimately show ?thesis using es isDigit_not_special(4) by metis
  qed
  have "\<not> isWhiteSpace (hd (''bytes='' @ ?t))" by (simp add: isWhiteSpace_def)
  with l have t: "trim (''bytes='' @ ?t) = ''bytes='' @ ?t" by (intro trim_id) simp_all
  have "CHR ''='' \<notin> set ?t" using ds es isDigit_not_special(2) by auto
  then have k: "split CHR ''='' ?t = [?t]" by (rule split_none)
  have "split CHR ''='' (''bytes'' @ CHR ''='' # ?t) = ''bytes'' # split CHR ''='' ?t"
    by (rule split_first) simp
  then have s: "split CHR ''='' (''bytes'' @ CHR ''='' # ?t) = [''bytes'', ?t]"
    by (simp only: k)
  have "CHR '','' \<notin> set ?t" using ds es isDigit_not_special(3) by auto
  then have c: "split CHR '','' ?t = [?t]" by (rule split_none)
  have e: "exec ?t = Some (ds, es)" using ds es by (rule exec_digits)
  have t': "trim (''bytes='' @ ds @ CHR ''-'' # es) = ''bytes'' @ CHR ''='' # ?t"
    using t by simp
  show ?thesis
    unfolding getRanges_def t' s
    by (simp add: c parsedRange_def e Let_def)
qed

lemma getRanges_suffix:
  assumes "0 < N" "N \<le> fileSize" "optPartialMaxLength opts = 0 \<or> N \<le> optPartialMaxLength opts"
  shows "getRanges (''bytes=-'' @ showInt N) fileSize opts
           = Inr \<lparr>byteRangeSet = [\<lparr>start = fileSize - N, end' = fileSize - 1\<rparr>], length' = N\<rparr>"
proof -
  let ?es = "showNat (nat N)"
  have es: "\<forall>c\<in>set ?es. isDigit c" using showNat_digits by blast
  have sh: "showInt N = ?es" using assms(1) by (simp add: showInt_def)
  have n: "toNumber ?es = Some N"
    using assms(1) by (simp add: toNumber_def showNat_nonempty Number_showNat)
  have e0: "toNumber [] = None" by (simp add: toNumber_def)
  let ?r = "\<lparr>start = fileSize - N, end' = fileSize - 1\<rparr>"
  have x: "expand fileSize (toNumber []) (toNumber ?es) = ?r"
    by (simp add: n e0 expand_def)
  have lim: "limit opts fileSize (fileSize - N) = fileSize - N" "limit opts fileSize (fileSize - 1) = fileSize - 1"
    using assms(1,2) by (simp_all add: limit_def)
  have tr: "truncateEnd opts ?r = ?r" using assms(3) by (auto simp: truncateEnd_def)
  have "\<not> isDenialOfServiceAttacks [?r]"
    using assms(1) by (intro single_wellformed_not_attack) simp
  then show ?thesis
    using getRanges_one_piece[of "[]" ?es fileSize opts] es
    by (simp add: sh x lim tr Let_def)
qed

lemma getRanges_open_ended:
  assumes "0 \<le> S" "S < fileSize" "optPartialMaxLength opts = 0 \<or> fileSize - S \<le> optPartialMaxLength opts"
  shows "getRanges (''bytes='' @ showInt S @ ''-'') fileSize opts
           = Inr \<lparr>byteRangeSet = [\<lparr>start = S, end' = fileSize - 1\<rparr>], length' = fileSize - S\<rparr>"
proof -
  let ?ds = "showNat (nat S)"
  have ds: "\<forall>c\<in>set ?ds. isDigit c" using showNat_digits by blast
  have sh: "showInt S = ?ds" using assms(1) by (simp add: showInt_def)
  have n: "toNumber ?ds = Some S"
    using assms(1) by (simp add: toNumber_def showNat_nonempty Number_showNat)
  have e0: "toNumber [] = None" by (simp add: toNumber_def)
  let ?r = "\<lparr>start = S, end' = fileSize - 1\<rparr>"
  have x: "expand fileSize (toNumber ?ds) (toNumber []) = ?r"
    by (simp add: n e0 expand_def)
  have lim: "limit opts fileSize S = S" "limit opts fileSize (fileSize - 1) = fileSize - 1"
    using assms(1,2) by (simp_all add: limit_def)
  have tr: "truncateEnd opts ?r = ?r" using assms(3) by (auto simp: truncateEnd_def)
  have "\<not> isDenialOfServiceAttacks [?r]"
    using assms(2) by (intro single_wellformed_not_attack) simp
  then show ?thesis
    using getRanges_one_piece[of ?ds "[]" fileSize opts] ds
    by (simp add: sh x lim tr Let_def)
qed

section \<open>The points of one more part\<close>

lemma dosScan_snoc:
  "dosScan first (ps @ [v]) = dosStep (dosScan first ps) (length ps) v"
  by (simp add: dosScan_def dosForEach_snoc)

lemma dosScan_check: "ps \<noteq> [] \<Longrightarrow> check (dosScan first ps) = last ps"
  by (simp add: dosScan_def dosForEach_check)

lemma dosScan_snoc_points:
  "POINT_SUM (dosScan first (ps @ [v])) =
     POINT_SUM (dosScan first ps) + (if end' v < start v then 10 else 0)
       + (if end' v - start v < 65536 then 2 else 0)
       + (if ps \<noteq> [] \<and> crossRange (last ps) v then 3 else 0)"
proof -
  have "POINT_SUM (dosScan first (ps @ [v])) = POINT_SUM (dosStep (dosScan first ps) (length ps) v)"
    by (simp only: dosScan_snoc)
  also have "\<dots> = POINT_SUM (dosScan first ps) + (if end' v < start v then 10 else 0)
       + (if end' v - start v < 65536 then 2 else 0)
       + (if ps \<noteq> [] \<and> crossRange (last ps) v then 3 else 0)"
    by (cases "ps = []") (simp_all add: dosStep_POINT_SUM dosScan_check)
  finally show ?thesis .
qed

section \<open>Properties of the multipart response\<close>

lemma headersForEach_inv:
  "size' acc = int (length (concat (headers acc))) \<Longrightarrow>
   size' (headersForEach boundary contentType fileSize index rs acc)
     = int (length (concat (headers (headersForEach boundary contentType fileSize index rs acc))))
   \<and> length (headers (headersForEach boundary contentType fileSize index rs acc))
     = length (headers acc) + length rs"
  by (induction rs arbitrary: acc index) (simp_all add: Let_def)

lemma partialContentHeaders_size:
  "size' (partialContentHeaders rs boundary contentType fileSize)
     = int (length (concat (headers (partialContentHeaders rs boundary contentType fileSize))))"
  unfolding partialContentHeaders_def using headersForEach_inv by simp

lemma partialContentHeaders_length:
  "length (headers (partialContentHeaders rs boundary contentType fileSize)) = length rs"
  unfolding partialContentHeaders_def
  using headersForEach_inv[of "\<lparr>headers = [], size' = 0\<rparr>" boundary contentType fileSize 0 rs] by simp

lemma createStreams_fileSpan:
  "\<forall>r\<in>set rs. 0 \<le> start r \<and> start r \<le> end' r \<Longrightarrow>
   createStreams bytes rs = Inr (map (fileSpan bytes) rs)"
  by (induction rs) (simp_all add: createReadStream_def fileSpan_def)

lemma length_fileSpan:
  assumes "0 \<le> start r" "start r \<le> end' r" "end' r < int (length bytes)"
  shows "int (length (fileSpan bytes r)) = width r"
  using assms by (simp add: fileSpan_def width_def)

lemma responseAllStream_concat:
  "length hs = length streams \<Longrightarrow>
   responseAllStream streams hs out = Inr (out @ concat (map2 (@) hs streams))"
proof (induction streams arbitrary: hs out)
  case Nil
  then show ?case by simp
next
  case (Cons s streams)
  then obtain h hs' where hs: "hs = h # hs'" "length hs' = length streams"
    by (cases hs) simp_all
  show ?case
  proof (cases "streams = []")
    case True
    with hs show ?thesis by (simp add: Let_def)
  next
    case False
    with hs Cons.IH[OF hs(2), of "out @ h @ s"] show ?thesis by (simp add: Let_def)
  qed
qed

lemma length_concat_map2:
  "length hs = length ss \<Longrightarrow>
   length (concat (map2 (@) hs ss)) = length (concat hs) + length (concat ss)"
  by (induction hs ss rule: list_induct2) simp_all

lemma length_concat_fileSpan:
  "\<forall>r\<in>set rs. 0 \<le> start r \<and> start r \<le> end' r \<and> end' r < int (length bytes) \<Longrightarrow>
   int (length (concat (map (fileSpan bytes) rs))) = sum_list (map width rs)"
  by (induction rs) (simp_all add: length_fileSpan)

lemma multiRange_Content_Length:
  "header (multiRange boundary f req contentType rs res) ''Content-Length''
    = Some (showInt (length' rs
         + size' (partialContentHeaders (byteRangeSet rs) boundary contentType (int (length (content f))))
         + int (length (CRLF @ ''--'' @ boundary @ ''--''))))"
  by (simp add: multiRange_def Let_def setHeader_def header_catchError_Content_Length
      split: sum.splits)

lemma multiRange_GET:
  assumes "method' req = ''GET''"
    and "\<forall>r\<in>set (byteRangeSet rs). 0 \<le> start r \<and> start r \<le> end' r"
  shows "body (multiRange boundary f req contentType rs res)
      = concat (map2 (@)
          (headers (partialContentHeaders (byteRangeSet rs) boundary contentType (int (length (content f)))))
          (map (fileSpan (content f)) (byteRangeSet rs)))
        @ CRLF @ ''--'' @ boundary @ ''--''"
    and "statusCode (multiRange boundary f req contentType rs res) = statusCode res"
proof -
  let ?ph = "partialContentHeaders (byteRangeSet rs) boundary contentType (int (length (content f)))"
  let ?ss = "map (fileSpan (content f)) (byteRangeSet rs)"
  have c: "createStreams (content f) (byteRangeSet rs) = Inr ?ss"
    using assms(2) by (rule createStreams_fileSpan)
  have "length (headers ?ph) = length ?ss" by (simp add: partialContentHeaders_length)
  then have r: "responseAllStream ?ss (headers ?ph) [] = Inr ([] @ concat (map2 (@) (headers ?ph) ?ss))"
    by (rule responseAllStream_concat)
  show "body (multiRange boundary f req contentType rs res)
      = concat (map2 (@) (headers ?ph) ?ss) @ CRLF @ ''--'' @ boundary @ ''--''"
    using assms(1) by (simp add: multiRange_def Let_def c r setHeader_def)
  show "statusCode (multiRange boundary f req contentType rs res) = statusCode res"
    using assms(1) by (simp add: multiRange_def Let_def c r setHeader_def)
qed

lemma statusCode_prepareHeaders_206: "statusCode ((prepareHeaders f)\<lparr>statusCode := 206\<rparr>) = 206"
  by simp

section \<open>The set a header denotes and its rejection\<close>

lemma limit_preventAtack: "limit (opts\<lparr>preventAtack := b\<rparr>) fileSize v = limit opts fileSize v"
  by (simp add: limit_def)

lemma parsedRange_preventAtack:
  "parsedRange (opts\<lparr>preventAtack := b\<rparr>) fileSize v = parsedRange opts fileSize v"
  by (simp add: parsedRange_def limit_preventAtack split: option.splits)

lemma truncateEnd_preventAtack: "truncateEnd (opts\<lparr>preventAtack := b\<rparr>) p = truncateEnd opts p"
  by (simp add: truncateEnd_def)

lemma rangesForEach_preventAtack:
  "rangesForEach (opts\<lparr>preventAtack := b\<rparr>) fileSize vs acc = rangesForEach opts fileSize vs acc"
  by (induction vs arbitrary: acc)
    (simp_all add: parsedRange_preventAtack truncateEnd_preventAtack split: sum.splits)

lemma getRanges_policy:
  assumes "getRanges h fileSize (opts\<lparr>preventAtack := False\<rparr>) = Inr res"
  shows "getRanges h fileSize (opts\<lparr>preventAtack := True\<rparr>) =
     (if isDenialOfServiceAttacks (byteRangeSet res)
      then Inl (RANGE_NOT_SATISFABLE\<lparr>errFileSize := Some fileSize\<rparr>) else Inr res)"
proof -
  from getRanges_Inr[OF assms] obtain spec rest where
    s: "split CHR ''='' (trim h) = ''bytes'' # spec # rest"
    and f: "rangesForEach (opts\<lparr>preventAtack := False\<rparr>) fileSize (split CHR '','' spec)
              \<lparr>byteRangeSet = [], length' = 0\<rparr> = Inr res"
    by blast
  from f have "rangesForEach (opts\<lparr>preventAtack := True\<rparr>) fileSize (split CHR '','' spec)
              \<lparr>byteRangeSet = [], length' = 0\<rparr> = Inr res"
    by (simp only: rangesForEach_preventAtack)
  with s show ?thesis by (simp add: getRanges_def)
qed

lemma narrow_points:
  assumes "\<forall>r\<in>set rs. width r < 65536"
  shows "2 * int (length rs) + 3 * int (crossCount rs) \<le> POINT_SUM (dosScan first rs)"
proof -
  have "filter (\<lambda>r. end' r - start r < 65536) rs = rs"
    using assms by (auto simp: width_def filter_id_conv)
  then show ?thesis by (simp add: dosScan_points)
qed

lemma dosScan_MULTIPLICATOR_ge: "1 \<le> MULTIPLICATOR (dosScan first rs)"
  unfolding dosScan_def by (rule dosForEach_MULTIPLICATOR_ge) simp

lemma points_isDenialOfServiceAttacks:
  assumes "10 \<le> POINT_SUM (dosScan (hd rs) rs)"
  shows "of_int 10 \<le> dosScore (dosScan (hd rs) rs)" and "isDenialOfServiceAttacks rs"
proof -
  show s: "of_int 10 \<le> dosScore (dosScan (hd rs) rs)"
    using dosScan_MULTIPLICATOR_ge assms by (intro dosScore_ge) simp_all
  show "isDenialOfServiceAttacks rs"
  proof (cases rs)
    case Nil
    with assms show ?thesis by (simp add: dosScan_def)
  next
    case (Cons first rest)
    with s show ?thesis
      by (simp add: isDenialOfServiceAttacks_def POINT_OF_NOT_SATISFABLE_def)
  qed
qed

lemma catchError_RANGE_NOT_SATISFABLE:
  "statusCode (catchError (RANGE_NOT_SATISFABLE\<lparr>errFileSize := Some n\<rparr>) res) = 416"
  "header (catchError (RANGE_NOT_SATISFABLE\<lparr>errFileSize := Some n\<rparr>) res) ''Content-Range''
     = Some (''bytes */'' @ showInt n)"
  by (simp_all add: catchError_def RANGE_NOT_SATISFABLE_def Let_def setHeader_def showProperty_def)

lemma serverOptions_preventAtack: "serverOptions\<lparr>preventAtack := True\<rparr> = serverOptions"
  by (simp add: serverOptions_def)

text \<open>
  The rejection itself: a set of narrow ranges whose points alone reach the threshold is
  answered with status 416 and \<open>Content-Range: bytes */fileSize\<close>, the multiplier being at
  least 1.
\<close>

lemma enough_points_rejected:
  assumes "method' req = ''GET'' \<or> method' req = ''HEAD''"
    and "rangeSupport (getContentInfo (fileExtension f))"
    and "rangeHeader req = Some h" and "h \<noteq> []"
    and "getRanges h (int (length (content f))) (serverOptions\<lparr>preventAtack := False\<rparr>) = Inr res"
    and "\<forall>r\<in>set (byteRangeSet res). width r < 65536"
    and "10 \<le> 2 * int (length (byteRangeSet res)) + 3 * int (crossCount (byteRangeSet res))"
  shows "of_int 10 \<le> dosScore (dosScan (hd (byteRangeSet res)) (byteRangeSet res))
     \<and> isDenialOfServiceAttacks (byteRangeSet res)
     \<and> statusCode (httpListener boundary (Some f) req) = 416
     \<and> header (httpListener boundary (Some f) req) ''Content-Range''
         = Some (''bytes */'' @ showInt (int (length (content f))))"
proof -
  let ?rs = "byteRangeSet res"
  let ?n = "int (length (content f))"
  have "10 \<le> POINT_SUM (dosScan (hd ?rs) ?rs)"
    using narrow_points[OF assms(6), of "hd ?rs"] assms(7) by linarith
  then have sc: "of_int 10 \<le> dosScore (dosScan (hd ?rs) ?rs)" and at: "isDenialOfServiceAttacks ?rs"
    by (rule points_isDenialOfServiceAttacks)+
  have "getRanges h ?n (serverOptions\<lparr>preventAtack := True\<rparr>)
      = Inl (RANGE_NOT_SATISFABLE\<lparr>errFileSize := Some ?n\<rparr>)"
    using getRanges_policy[OF assms(5)] at by simp
  then have g: "getRanges h ?n serverOptions = Inl (RANGE_NOT_SATISFABLE\<lparr>errFileSize := Some ?n\<rparr>)"
    by (simp only: serverOptions_preventAtack)
  have "httpListener boundary (Some f) req
      = catchError (RANGE_NOT_SATISFABLE\<lparr>errFileSize := Some ?n\<rparr>) ((prepareHeaders f)\<lparr>statusCode := 206\<rparr>)"
    using httpListener_range[OF assms(1,2,3,4), of boundary] g by simp
  with sc at show ?thesis by (simp add: catchError_RANGE_NOT_SATISFABLE)
qed

section \<open>Double precision below \<open>2^53\<close>\<close>

lemma dropBits_small: "x < 9007199254740992 \<Longrightarrow> dropBits x = 0"
  by (subst dropBits.simps) simp

lemma dropBits_two_53: "dropBits 9007199254740992 = 1"
  by (subst dropBits.simps) (simp add: dropBits_small)

lemma toDouble_nonneg_exact:
  assumes "0 \<le> a" "a \<le> 2 ^ 53"
  shows "toDouble a = Some a"
proof (cases "a < 2 ^ 53")
  case True
  with assms(1) show ?thesis
    by (cases "a = 0") (simp_all add: toDouble_def dropBits_small Let_def sgn_if)
next
  case False
  with assms(2) have a: "a = 2 ^ 53" by simp
  show ?thesis
    unfolding a by (simp add: toDouble_def dropBits_two_53 Let_def)
qed

lemma toDouble_exact:
  assumes "\<bar>x\<bar> \<le> 2 ^ 53"
  shows "toDouble x = Some x"
proof (cases "0 \<le> x")
  case True
  with assms show ?thesis by (intro toDouble_nonneg_exact) simp_all
next
  case False
  then have n: "x < 0" by simp
  with assms have "toDouble (- x) = Some (- x)" by (intro toDouble_nonneg_exact) simp_all
  then show ?thesis
    using n by (auto simp: toDouble_def Let_def split: if_splits)
qed

lemma matchHere_digits_only:
  "matchHere v = Some (s, e) \<Longrightarrow> (\<forall>c\<in>set s. isDigit c) \<and> (\<forall>c\<in>set e. isDigit c)"
  by (auto simp: matchHere_def split: list.splits if_splits dest: set_takeWhileD)

lemma exec_digits_only:
  "exec v = Some (s, e) \<Longrightarrow> (\<forall>c\<in>set s. isDigit c) \<and> (\<forall>c\<in>set e. isDigit c)"
proof (induction v)
  case Nil
  then show ?case using matchHere_digits_only[of "[]" s e] by simp
next
  case (Cons c cs)
  show ?case
  proof (cases "matchHere (c # cs)")
    case None
    with Cons show ?thesis by simp
  next
    case (Some m)
    with Cons.prems have "matchHere (c # cs) = Some (s, e)" by simp
    then show ?thesis by (rule matchHere_digits_only)
  qed
qed

lemma foldl_digits_nonneg:
  "\<forall>c\<in>set s. isDigit c \<Longrightarrow> 0 \<le> acc \<Longrightarrow> 0 \<le> foldl (\<lambda>acc c. 10 * acc + digitValue c) acc s"
proof (induction s arbitrary: acc)
  case Nil
  then show ?case by simp
next
  case (Cons c s)
  from Cons.prems(1) have "0 \<le> digitValue c" by (simp add: isDigit_def digitValue_def)
  with Cons.prems(2) have "0 \<le> 10 * acc + digitValue c" by simp
  with Cons show ?case by simp
qed

lemma Number_nonneg: "\<forall>c\<in>set s. isDigit c \<Longrightarrow> 0 \<le> Number s"
  unfolding Number_def by (rule foldl_digits_nonneg) simp_all

lemma toNumberD_exact:
  assumes "\<forall>c\<in>set s. isDigit c" "Number s < 2 ^ 53"
  shows "toNumberD s = Some (toNumber s)"
proof -
  have "\<bar>Number s\<bar> \<le> 2 ^ 53" using Number_nonneg[OF assms(1)] assms(2) by simp
  then show ?thesis by (simp add: toNumberD_def toNumber_def toDouble_exact)
qed

lemma toNumber_bounds:
  assumes "\<forall>c\<in>set s. isDigit c" "Number s < 2 ^ 53" "toNumber s = Some n"
  shows "0 \<le> n \<and> n < 2 ^ 53"
  using assms Number_nonneg[OF assms(1)] by (auto simp: toNumber_def split: if_splits)

lemma expandD_exact:
  assumes "0 \<le> fileSize" "fileSize < 2 ^ 53"
    and "\<forall>n. s = Some n \<longrightarrow> 0 \<le> n \<and> n < 2 ^ 53"
    and "\<forall>n. e = Some n \<longrightarrow> 0 \<le> n \<and> n < 2 ^ 53"
  shows "expandD fileSize s e = Some (expand fileSize s e) \<and> exactRange (expand fileSize s e)"
proof -
  have f1: "toDouble (fileSize - 1) = Some (fileSize - 1)"
    using assms(1,2) by (intro toDouble_exact) simp
  show ?thesis
  proof (cases s)
    case None
    have "\<bar>fileSize - (case e of None \<Rightarrow> 0 | Some n \<Rightarrow> n)\<bar> \<le> 2 ^ 53"
      using assms(1,2,4) by (cases e) auto
    then have "toDouble (fileSize - (case e of None \<Rightarrow> 0 | Some n \<Rightarrow> n))
        = Some (fileSize - (case e of None \<Rightarrow> 0 | Some n \<Rightarrow> n))"
      by (rule toDouble_exact)
    moreover have "exactRange \<lparr>start = fileSize - (case e of None \<Rightarrow> 0 | Some n \<Rightarrow> n), end' = fileSize - 1\<rparr>"
      using assms(1,2,4) by (cases e) (auto simp: exactRange_def)
    ultimately show ?thesis using None f1 by (simp add: expandD_def expand_def)
  next
    case (Some a)
    with assms(3) have a: "0 \<le> a" "a < 2 ^ 53" by simp_all
    show ?thesis
    proof (cases e)
      case None
      have "exactRange \<lparr>start = a, end' = fileSize - 1\<rparr>"
        using a assms(1,2) by (auto simp: exactRange_def)
      with Some None f1 show ?thesis by (simp add: expandD_def expand_def)
    next
      case (Some b)
      with assms(4) have b: "0 \<le> b" "b < 2 ^ 53" by simp_all
      have "exactRange \<lparr>start = a, end' = b\<rparr>"
        using a b by (auto simp: exactRange_def)
      with \<open>s = Some a\<close> Some show ?thesis by (simp add: expandD_def expand_def)
    qed
  qed
qed

lemma limitD_exact:
  assumes "0 \<le> fileSize" "fileSize < 2 ^ 53"
  shows "limitD opts fileSize val = Some (limit opts fileSize val)"
proof -
  have "toDouble (fileSize - 1) = Some (fileSize - 1)"
    using assms by (intro toDouble_exact) simp
  then show ?thesis by (simp add: limitD_def limit_def)
qed

lemma limit_exactRange:
  assumes "0 \<le> fileSize" "fileSize < 2 ^ 53" "exactRange r"
  shows "exactRange \<lparr>start = limit opts fileSize (start r), end' = limit opts fileSize (end' r)\<rparr>"
  using assms by (auto simp: exactRange_def limit_def)

lemma parsedRangeD_exact:
  assumes "0 \<le> fileSize" "fileSize < 2 ^ 53"
    and "\<forall>s e. exec v = Some (s, e) \<longrightarrow> Number s < 2 ^ 53 \<and> Number e < 2 ^ 53"
  shows "parsedRangeD opts fileSize v = Some (parsedRange opts fileSize v)
       \<and> (\<forall>p. parsedRange opts fileSize v = Inr p \<longrightarrow> exactRange p)"
proof (cases "exec v")
  case None
  then show ?thesis by (simp add: parsedRangeD_def parsedRange_def)
next
  case (Some m)
  obtain s e where m: "m = (s, e)" by (cases m)
  with Some have x: "exec v = Some (s, e)" by simp
  from exec_digits_only[OF x] have ds: "\<forall>c\<in>set s. isDigit c" and de: "\<forall>c\<in>set e. isDigit c"
    by simp_all
  from assms(3) x have bs: "Number s < 2 ^ 53" and be: "Number e < 2 ^ 53" by simp_all
  have ns: "toNumberD s = Some (toNumber s)" using ds bs by (rule toNumberD_exact)
  have ne: "toNumberD e = Some (toNumber e)" using de be by (rule toNumberD_exact)
  have "expandD fileSize (toNumber s) (toNumber e) = Some (expand fileSize (toNumber s) (toNumber e))
      \<and> exactRange (expand fileSize (toNumber s) (toNumber e))"
    using assms(1,2) toNumber_bounds[OF ds bs] toNumber_bounds[OF de be]
    by (intro expandD_exact) auto
  then have ex: "expandD fileSize (toNumber s) (toNumber e) = Some (expand fileSize (toNumber s) (toNumber e))"
    and er: "exactRange (expand fileSize (toNumber s) (toNumber e))" by simp_all
  have "parsedRangeD opts fileSize v = Some (parsedRange opts fileSize v)"
    by (simp add: parsedRangeD_def parsedRange_def x ns ne ex limitD_exact[OF assms(1,2)] Let_def)
  moreover have "\<forall>p. parsedRange opts fileSize v = Inr p \<longrightarrow> exactRange p"
    using limit_exactRange[OF assms(1,2) er, of opts] by (simp add: parsedRange_def x Let_def)
  ultimately show ?thesis by simp
qed

lemma widthD_exact: "exactRange r \<Longrightarrow> widthD r = Some (width r)"
proof -
  assume r: "exactRange r"
  then have "toDouble (end' r - start r) = Some (end' r - start r)"
    by (intro toDouble_exact) (auto simp: exactRange_def)
  moreover from r have "toDouble (end' r - start r + 1) = Some (end' r - start r + 1)"
    by (intro toDouble_exact) (auto simp: exactRange_def)
  ultimately show ?thesis by (simp add: widthD_def width_def)
qed

lemma truncateEndD_exact:
  assumes "exactRange p" "0 \<le> optPartialMaxLength opts"
  shows "truncateEndD opts p = Some (truncateEnd opts p) \<and> exactRange (truncateEnd opts p)"
proof (cases "optPartialMaxLength opts \<noteq> 0 \<and> optPartialMaxLength opts < width p")
  case False
  with assms(1) show ?thesis
    by (auto simp: truncateEndD_def truncateEnd_def widthD_exact width_def)
next
  case True
  let ?m = "optPartialMaxLength opts"
  from True assms(2) have m: "0 < ?m" "?m < end' p - start p + 1" by (simp_all add: width_def)
  from assms(1) have b: "\<bar>start p\<bar> < 2 ^ 53" "\<bar>end' p\<bar> < 2 ^ 53" "end' p - start p < 2 ^ 53"
    by (simp_all add: exactRange_def)
  have "toDouble (start p + ?m) = Some (start p + ?m)"
    using m b by (intro toDouble_exact) auto
  moreover have "toDouble (start p + ?m - 1) = Some (start p + ?m - 1)"
    using m b by (intro toDouble_exact) auto
  moreover have "exactRange (p\<lparr>end' := start p + ?m - 1\<rparr>)"
    using m b by (auto simp: exactRange_def)
  ultimately show ?thesis
    using True assms(1) by (simp add: truncateEndD_def truncateEnd_def widthD_exact width_def)
qed

lemma sumD_exact:
  assumes "\<forall>r\<in>set rs. exactRange r" "\<bar>l\<bar> + (\<Sum>r\<leftarrow>rs. \<bar>width r\<bar>) \<le> 2 ^ 53"
  shows "sumD l rs = Some (l + sum_list (map width rs))"
  using assms
proof (induction rs arbitrary: l)
  case Nil
  then show ?case by simp
next
  case (Cons r rs)
  have s: "0 \<le> (\<Sum>r\<leftarrow>rs. \<bar>width r\<bar>)" by (rule sum_list_nonneg) auto
  from Cons.prems(1) have w: "widthD r = Some (width r)" by (simp add: widthD_exact)
  have "\<bar>l + width r\<bar> \<le> 2 ^ 53" using Cons.prems(2) s by simp
  then have t: "toDouble (l + width r) = Some (l + width r)" by (rule toDouble_exact)
  have "\<bar>l + width r\<bar> + (\<Sum>r\<leftarrow>rs. \<bar>width r\<bar>) \<le> 2 ^ 53" using Cons.prems(2) by simp
  with Cons.IH[of "l + width r"] Cons.prems(1)
  have "sumD (l + width r) rs = Some (l + width r + sum_list (map width rs))" by simp
  with w t show ?case by (simp add: add.assoc)
qed

lemma rangesForEachD_acc:
  "rangesForEachD opts fileSize vs acc = Some (Inr res) \<Longrightarrow>
     \<exists>ps rs. list_all2 (\<lambda>v p. parsedRangeD opts fileSize v = Some (Inr p)) vs ps
        \<and> list_all2 (\<lambda>p r. truncateEndD opts p = Some r) ps rs
        \<and> byteRangeSet res = byteRangeSet acc @ rs
        \<and> sumD (length' acc) rs = Some (length' res)"
proof (induction vs arbitrary: acc)
  case Nil
  then show ?case by simp
next
  case (Cons v vs)
  from Cons.prems obtain p where p: "parsedRangeD opts fileSize v = Some (Inr p)"
    by (auto split: option.splits sum.splits)
  with Cons.prems obtain r w l where
    r: "truncateEndD opts p = Some r" and w: "widthD r = Some w"
    and l: "toDouble (length' acc + w) = Some l"
    and rec: "rangesForEachD opts fileSize vs \<lparr>byteRangeSet = byteRangeSet acc @ [r], length' = l\<rparr>
         = Some (Inr res)"
    by (auto simp: Option.bind_eq_Some_conv)
  from Cons.IH[OF rec] obtain ps rs where
    a: "list_all2 (\<lambda>v p. parsedRangeD opts fileSize v = Some (Inr p)) vs ps"
    and b: "list_all2 (\<lambda>p r. truncateEndD opts p = Some r) ps rs"
    and c: "byteRangeSet res = (byteRangeSet acc @ [r]) @ rs"
    and d: "sumD l rs = Some (length' res)"
    by auto
  have "list_all2 (\<lambda>v p. parsedRangeD opts fileSize v = Some (Inr p)) (v # vs) (p # ps)"
    using p a by simp
  moreover have "list_all2 (\<lambda>p r. truncateEndD opts p = Some r) (p # ps) (r # rs)"
    using r b by simp
  moreover have "byteRangeSet res = byteRangeSet acc @ (r # rs)" using c by simp
  moreover have "sumD (length' acc) (r # rs) = Some (length' res)" using w l d by simp
  ultimately show ?case by blast
qed

lemma rangesForEachD_exact:
  assumes "0 \<le> fileSize" "fileSize < 2 ^ 53" "0 \<le> optPartialMaxLength opts"
    and "\<forall>v\<in>set vs. \<forall>s e. exec v = Some (s, e) \<longrightarrow> Number s < 2 ^ 53 \<and> Number e < 2 ^ 53"
    and "rangesForEach opts fileSize vs acc = Inr res"
    and "byteRangeSet res = byteRangeSet acc @ rs"
    and "\<bar>length' acc\<bar> + (\<Sum>r\<leftarrow>rs. \<bar>width r\<bar>) \<le> 2 ^ 53"
  shows "rangesForEachD opts fileSize vs acc = Some (Inr res)"
  using assms(4-7)
proof (induction vs arbitrary: acc rs)
  case Nil
  then show ?case by simp
next
  case (Cons v vs)
  from Cons.prems(2) obtain p where p: "parsedRange opts fileSize v = Inr p"
    by (auto split: sum.splits)
  let ?r = "truncateEnd opts p"
  let ?acc = "\<lparr>byteRangeSet = byteRangeSet acc @ [?r], length' = length' acc + (end' ?r - start ?r + 1)\<rparr>"
  from Cons.prems(2) p have rec: "rangesForEach opts fileSize vs ?acc = Inr res"
    by (simp add: Let_def)
  from rangesForEach_acc[OF rec] obtain ps where
    "byteRangeSet res = byteRangeSet ?acc @ map (truncateEnd opts) ps" by blast
  with Cons.prems(3) have rs: "rs = ?r # map (truncateEnd opts) ps" by simp
  have bv: "\<forall>s e. exec v = Some (s, e) \<longrightarrow> Number s < 2 ^ 53 \<and> Number e < 2 ^ 53"
    using Cons.prems(1) by simp
  from parsedRangeD_exact[OF assms(1,2) bv, of opts] p
  have pd: "parsedRangeD opts fileSize v = Some (Inr p)" and ep: "exactRange p" by simp_all
  from truncateEndD_exact[OF ep assms(3)]
  have td: "truncateEndD opts p = Some ?r" and er: "exactRange ?r" by simp_all
  have wd: "widthD ?r = Some (width ?r)" using er by (rule widthD_exact)
  have s: "0 \<le> (\<Sum>r\<leftarrow>map (truncateEnd opts) ps. \<bar>width r\<bar>)" by (rule sum_list_nonneg) auto
  have "\<bar>length' acc + width ?r\<bar> \<le> 2 ^ 53" using Cons.prems(4) s unfolding rs by simp
  then have ld: "toDouble (length' acc + width ?r) = Some (length' acc + width ?r)"
    by (rule toDouble_exact)
  have "rangesForEachD opts fileSize vs ?acc = Some (Inr res)"
  proof (rule Cons.IH)
    show "\<forall>v\<in>set vs. \<forall>s e. exec v = Some (s, e) \<longrightarrow> Number s < 2 ^ 53 \<and> Number e < 2 ^ 53"
      using Cons.prems(1) by simp
    show "rangesForEach opts fileSize vs ?acc = Inr res" by (rule rec)
    show "byteRangeSet res = byteRangeSet ?acc @ map (truncateEnd opts) ps"
      using Cons.prems(3) rs by simp
    show "\<bar>length' ?acc\<bar> + (\<Sum>r\<leftarrow>map (truncateEnd opts) ps. \<bar>width r\<bar>) \<le> 2 ^ 53"
      using Cons.prems(4) unfolding rs by (simp add: width_def)
  qed
  then show ?case using pd td wd ld by (simp add: width_def)
qed

section \<open>The properties of the specification\<close>


text \<open>
  C4. With the rejection of adversarial sets enabled (\<open>preventAtack\<close>, the default), every
  range of a set that \<open>getRanges\<close> returns has \<open>start \<le> end\<close>. Equivalently, a set with a
  range whose start is past its end is a denial-of-service attack for the scorer, and a
  header whose pieces parse to such a set is answered by throwing
  \<open>RANGE_NOT_SATISFABLE\<close> with the file size; the range is not dropped from the set.
\<close>

theorem accepted_ranges_end_ge_start:
  assumes "preventAtack opts"
  shows "(getRanges hdr fileSize opts = Inr res \<longrightarrow> (\<forall>r\<in>set (byteRangeSet res). start r \<le> end' r))
    \<and> ((\<exists>r\<in>set rs. end' r < start r) \<longrightarrow> isDenialOfServiceAttacks rs)
    \<and> (split CHR ''='' (trim hdr') = ''bytes'' # spec # rest
         \<and> rangesForEach opts fileSize' (split CHR '','' spec) \<lparr>byteRangeSet = [], length' = 0\<rparr> = Inr res'
         \<and> (\<exists>r\<in>set (byteRangeSet res'). end' r < start r)
       \<longrightarrow> getRanges hdr' fileSize' opts = Inl (RANGE_NOT_SATISFABLE\<lparr>errFileSize := Some fileSize'\<rparr>))"
proof (intro conjI impI)
  assume "getRanges hdr fileSize opts = Inr res"
  then show "\<forall>r\<in>set (byteRangeSet res). start r \<le> end' r"
    using assms getRanges_wellformed by blast
next
  assume "\<exists>r\<in>set rs. end' r < start r"
  then show "isDenialOfServiceAttacks rs"
    using malformed_isDenialOfServiceAttacks by blast
next
  assume a: "split CHR ''='' (trim hdr') = ''bytes'' # spec # rest
         \<and> rangesForEach opts fileSize' (split CHR '','' spec) \<lparr>byteRangeSet = [], length' = 0\<rparr> = Inr res'
         \<and> (\<exists>r\<in>set (byteRangeSet res'). end' r < start r)"
  then have "isDenialOfServiceAttacks (byteRangeSet res')"
    using malformed_isDenialOfServiceAttacks by blast
  with a assms show "getRanges hdr' fileSize' opts = Inl (RANGE_NOT_SATISFABLE\<lparr>errFileSize := Some fileSize'\<rparr>)"
    by (simp add: getRanges_def)
qed

theorem accepted_ranges_end_ge_start_witness:
  "preventAtack serverOptions
   \<and> getRanges ''bytes=2-5'' 10 serverOptions
       = Inr \<lparr>byteRangeSet = [\<lparr>start = 2, end' = 5\<rparr>], length' = 4\<rparr>
   \<and> start \<lparr>start = 2, end' = 5\<rparr> \<le> end' \<lparr>start = 2, end' = 5\<rparr>
   \<and> isDenialOfServiceAttacks [\<lparr>start = 5, end' = 2\<rparr>]
   \<and> rangesForEach serverOptions 10 (split CHR '','' ''0-1,5-2'') \<lparr>byteRangeSet = [], length' = 0\<rparr>
       = Inr \<lparr>byteRangeSet = [\<lparr>start = 0, end' = 1\<rparr>, \<lparr>start = 5, end' = 2\<rparr>], length' = 0\<rparr>
   \<and> getRanges ''bytes=0-1,5-2'' 10 serverOptions = Inl (RANGE_NOT_SATISFABLE\<lparr>errFileSize := Some 10\<rparr>)"
proof -
  have p: "preventAtack serverOptions" by (simp add: serverOptions_def)
  have g: "getRanges ''bytes=2-5'' 10 serverOptions
       = Inr \<lparr>byteRangeSet = [\<lparr>start = 2, end' = 5\<rparr>], length' = 4\<rparr>" by code_simp
  have s: "split CHR ''='' (trim ''bytes=0-1,5-2'') = ''bytes'' # ''0-1,5-2'' # []" by code_simp
  have f: "rangesForEach serverOptions 10 (split CHR '','' ''0-1,5-2'') \<lparr>byteRangeSet = [], length' = 0\<rparr>
       = Inr \<lparr>byteRangeSet = [\<lparr>start = 0, end' = 1\<rparr>, \<lparr>start = 5, end' = 2\<rparr>], length' = 0\<rparr>" by code_simp
  note t = accepted_ranges_end_ge_start[OF p, where hdr = "''bytes=2-5''" and fileSize = 10
      and res = "\<lparr>byteRangeSet = [\<lparr>start = 2, end' = 5\<rparr>], length' = 4\<rparr>"
      and rs = "[\<lparr>start = 5, end' = 2\<rparr>]"
      and hdr' = "''bytes=0-1,5-2''" and spec = "''0-1,5-2''" and rest = "[]" and fileSize' = 10
      and res' = "\<lparr>byteRangeSet = [\<lparr>start = 0, end' = 1\<rparr>, \<lparr>start = 5, end' = 2\<rparr>], length' = 0\<rparr>"]
  from t g have "start \<lparr>start = 2, end' = 5\<rparr> \<le> end' \<lparr>start = 2, end' = 5\<rparr>" by simp
  moreover from t have "isDenialOfServiceAttacks [\<lparr>start = 5, end' = 2\<rparr>]" by simp
  moreover from t s f have "getRanges ''bytes=0-1,5-2'' 10 serverOptions = Inl (RANGE_NOT_SATISFABLE\<lparr>errFileSize := Some 10\<rparr>)"
    by simp
  ultimately show ?thesis using p g f by simp
qed

text \<open>
  C2. The multiplier 1.5 is meant for parts that are not in ascending order (the constant
  is \<open>POINT_NOT_SORTED_MULTIPLICATOR\<close>), yet line 262 sets it when the previous part ends
  before the current one starts. The set 20-30, 0-10 is out of ascending order and keeps
  the multiplier 1 (score 4); the set 0-10, 20-30 is in ascending order and gets the
  multiplier 1.5 (score 6).
\<close>

theorem multiplier_set_on_ascending_parts:
  "MULTIPLICATOR (dosScan \<lparr>start = 20, end' = 30\<rparr> [\<lparr>start = 20, end' = 30\<rparr>, \<lparr>start = 0, end' = 10\<rparr>]) = 1
   \<and> dosScore (dosScan \<lparr>start = 20, end' = 30\<rparr> [\<lparr>start = 20, end' = 30\<rparr>, \<lparr>start = 0, end' = 10\<rparr>]) = 4
   \<and> MULTIPLICATOR (dosScan \<lparr>start = 0, end' = 10\<rparr> [\<lparr>start = 0, end' = 10\<rparr>, \<lparr>start = 20, end' = 30\<rparr>]) = 3 / 2
   \<and> dosScore (dosScan \<lparr>start = 0, end' = 10\<rparr> [\<lparr>start = 0, end' = 10\<rparr>, \<lparr>start = 20, end' = 30\<rparr>]) = 6"
  by code_simp

text \<open>
  C3. A unit other than \<open>bytes\<close> is answered with status 416, and the response does carry
  a Content-Range header: the \<open>catch\<close> clause tells the errors apart by their status code,
  which \<open>BYTES_UNIT_NOT_VALID\<close> shares with \<open>RANGE_NOT_SATISFABLE\<close>, and the thrown object
  has no \<open>fileSize\<close>.
\<close>

theorem invalid_unit_carries_content_range:
  "statusCode (httpListener ''b''
       (Some \<lparr>fileName = ''a.txt'', fileExtension = ''.txt'', content = ''0123456789''\<rparr>)
       \<lparr>method' = ''GET'', rangeHeader = Some ''items=0-5''\<rparr>) = 416
   \<and> statusMessage (httpListener ''b''
       (Some \<lparr>fileName = ''a.txt'', fileExtension = ''.txt'', content = ''0123456789''\<rparr>)
       \<lparr>method' = ''GET'', rangeHeader = Some ''items=0-5''\<rparr>) = ''Bytes unit not valid''
   \<and> header (httpListener ''b''
       (Some \<lparr>fileName = ''a.txt'', fileExtension = ''.txt'', content = ''0123456789''\<rparr>)
       \<lparr>method' = ''GET'', rangeHeader = Some ''items=0-5''\<rparr>) ''Content-Range'' = Some ''bytes */undefined''"
  by code_simp

text \<open>
  C10. When a GET request with a \<open>Range\<close> header is accepted with a single range, the
  Content-Length header of the response is still the one set while the headers were
  prepared, the size of the whole file; where the range starts inside or after the file
  (no negative start), the status is 206 and the body holds the bytes of that range only.
\<close>

theorem single_range_keeps_full_Content_Length:
  assumes "method' req = ''GET''"
    and "rangeSupport (getContentInfo (fileExtension f))"
    and "rangeHeader req = Some h" and "h \<noteq> []"
    and "getRanges h (int (length (content f))) serverOptions = Inr rs"
    and "byteRangeSet rs = [r]"
  shows "header (httpListener boundary (Some f) req) ''Content-Length''
           = Some (showInt (int (length (content f))))
     \<and> (0 \<le> start r \<longrightarrow>
          statusCode (httpListener boundary (Some f) req) = 206
        \<and> body (httpListener boundary (Some f) req) = fileSpan (content f) r)"
proof -
  let ?base = "(prepareHeaders f)\<lparr>statusCode := 206\<rparr>"
  have eq: "httpListener boundary (Some f) req = singleRange f req rs ?base"
    using httpListener_range[OF disjI1[OF assms(1)] assms(2,3,4), of boundary] assms(5,6) by simp
  have "header (singleRange f req rs ?base) ''Content-Length'' = Some (showInt (int (length (content f))))"
    by (simp add: singleRange_Content_Length header_prepareHeaders_Content_Length)
  moreover have "start r \<le> end' r"
    using getRanges_wellformed[OF assms(5)] assms(6) by (simp add: serverOptions_def)
  ultimately show ?thesis
    using eq singleRange_GET[OF assms(1,6), of f ?base] by simp
qed

theorem single_range_keeps_full_Content_Length_witness:
  "getRanges ''bytes=2-5'' (int (length ''abcdefghijklmnopqrst'')) serverOptions
     = Inr \<lparr>byteRangeSet = [\<lparr>start = 2, end' = 5\<rparr>], length' = 4\<rparr>
   \<and> header (httpListener ''b'' (Some \<lparr>fileName = ''a.txt'', fileExtension = ''.txt'', content = ''abcdefghijklmnopqrst''\<rparr>)
        \<lparr>method' = ''GET'', rangeHeader = Some ''bytes=2-5''\<rparr>) ''Content-Length'' = Some ''20''
   \<and> statusCode (httpListener ''b'' (Some \<lparr>fileName = ''a.txt'', fileExtension = ''.txt'', content = ''abcdefghijklmnopqrst''\<rparr>)
        \<lparr>method' = ''GET'', rangeHeader = Some ''bytes=2-5''\<rparr>) = 206
   \<and> body (httpListener ''b'' (Some \<lparr>fileName = ''a.txt'', fileExtension = ''.txt'', content = ''abcdefghijklmnopqrst''\<rparr>)
        \<lparr>method' = ''GET'', rangeHeader = Some ''bytes=2-5''\<rparr>) = ''cdef''"
proof -
  let ?f = "\<lparr>fileName = ''a.txt'', fileExtension = ''.txt'', content = ''abcdefghijklmnopqrst''\<rparr>"
  let ?req = "\<lparr>method' = ''GET'', rangeHeader = Some ''bytes=2-5''\<rparr>"
  let ?rs = "\<lparr>byteRangeSet = [\<lparr>start = 2, end' = 5\<rparr>], length' = 4\<rparr>"
  have m: "method' ?req = ''GET''" by simp
  have s: "rangeSupport (getContentInfo (fileExtension ?f))" by code_simp
  have h: "rangeHeader ?req = Some ''bytes=2-5''" by simp
  have n: "''bytes=2-5'' \<noteq> []" by simp
  have g: "getRanges ''bytes=2-5'' (int (length (content ?f))) serverOptions = Inr ?rs" by code_simp
  have b: "byteRangeSet ?rs = [\<lparr>start = 2, end' = 5\<rparr>]" by simp
  have sh: "showInt (int (length (content ?f))) = ''20''" by code_simp
  have sp: "fileSpan (content ?f) \<lparr>start = 2, end' = 5\<rparr> = ''cdef''" by code_simp
  from single_range_keeps_full_Content_Length[OF m s h n g b, of "''b''"] g sh sp
  show ?thesis by simp
qed

text \<open>
  C6, as stated, fails under the options the server passes: there the maximum chunk length
  is 524288, and the suffix range \<open>-600000\<close> of a file of 1000000 bytes comes back as
  400000-924287, not as 400000-999999; likewise the open-ended range \<open>100000-\<close> comes back
  as 100000-624287.
\<close>

theorem suffix_range_truncated_counterexample:
  "getRanges ''bytes=-600000'' 1000000 serverOptions
     = Inr \<lparr>byteRangeSet = [\<lparr>start = 400000, end' = 924287\<rparr>], length' = 524288\<rparr>
   \<and> getRanges ''bytes=-600000'' 1000000 serverOptions
     \<noteq> Inr \<lparr>byteRangeSet = [\<lparr>start = 1000000 - 600000, end' = 1000000 - 1\<rparr>], length' = 600000\<rparr>
   \<and> getRanges ''bytes=100000-'' 1000000 serverOptions
     = Inr \<lparr>byteRangeSet = [\<lparr>start = 100000, end' = 624287\<rparr>], length' = 524288\<rparr>"
  by code_simp

text \<open>
  C6, amended. For a file of \<open>fileSize > 0\<close> bytes and \<open>0 < N \<le> fileSize\<close>, the header
  \<open>bytes=-N\<close> gives the single range from \<open>fileSize - N\<close> to \<open>fileSize - 1\<close>, and for
  \<open>0 \<le> S < fileSize\<close> the header \<open>bytes=S-\<close> gives the single range from \<open>S\<close> to
  \<open>fileSize - 1\<close>, under every setting of the options in which the range is not wider than
  the maximum chunk length (no maximum is set, or the width \<open>N\<close>, respectively
  \<open>fileSize - S\<close>, is at most the maximum). The numbers are written in decimal, as
  \<open>showInt\<close> writes them.
\<close>

theorem suffix_and_open_ended_ranges:
  "(0 < fileSize \<and> 0 < N \<and> N \<le> fileSize
      \<and> (optPartialMaxLength opts = 0 \<or> N \<le> optPartialMaxLength opts)
     \<longrightarrow> getRanges (''bytes=-'' @ showInt N) fileSize opts
           = Inr \<lparr>byteRangeSet = [\<lparr>start = fileSize - N, end' = fileSize - 1\<rparr>], length' = N\<rparr>)
   \<and> (0 < fileSize \<and> 0 \<le> S \<and> S < fileSize
      \<and> (optPartialMaxLength opts = 0 \<or> fileSize - S \<le> optPartialMaxLength opts)
     \<longrightarrow> getRanges (''bytes='' @ showInt S @ ''-'') fileSize opts
           = Inr \<lparr>byteRangeSet = [\<lparr>start = S, end' = fileSize - 1\<rparr>], length' = fileSize - S\<rparr>)"
  using getRanges_suffix[of N fileSize opts] getRanges_open_ended[of S fileSize opts]
  by blast

theorem suffix_and_open_ended_ranges_witness:
  "(0 < (1000::int) \<and> 0 < (100::int) \<and> (100::int) \<le> 1000
      \<and> (100::int) \<le> optPartialMaxLength serverOptions)
   \<and> getRanges ''bytes=-100'' 1000 serverOptions
         = Inr \<lparr>byteRangeSet = [\<lparr>start = 900, end' = 999\<rparr>], length' = 100\<rparr>
   \<and> (0 \<le> (900::int) \<and> (900::int) < 1000 \<and> (1000::int) - 900 \<le> optPartialMaxLength serverOptions)
   \<and> getRanges ''bytes=900-'' 1000 serverOptions
         = Inr \<lparr>byteRangeSet = [\<lparr>start = 900, end' = 999\<rparr>], length' = 100\<rparr>"
proof -
  have o: "optPartialMaxLength serverOptions = 524288"
    by (simp add: serverOptions_def partialMaxLength_def)
  have a: "showInt 100 = ''100''" by code_simp
  have b: "showInt 900 = ''900''" by code_simp
  from suffix_and_open_ended_ranges[of 1000 100 serverOptions 900]
  show ?thesis by (simp add: o a b)
qed

text \<open>
  C7, as stated, fails for a part of exactly 65536 bytes: the part 0-65535 is given the two
  points of a small range, because line 257 compares \<open>end - start\<close>, one less than the
  width, with 65536.
\<close>

theorem small_range_points_counterexample:
  "width \<lparr>start = 0, end' = 65535\<rparr> = 65536
   \<and> POINT_SUM (dosScan \<lparr>start = 0, end' = 65535\<rparr> [\<lparr>start = 0, end' = 65535\<rparr>]) = POINT_SMALL_RANGE
   \<and> POINT_SMALL_RANGE = 2"
  by code_simp

text \<open>
  C7, amended. The points a part adds to the sum are three separate amounts: 10 when its
  start is past its end, 3 when it is not the first part and passes the overlap test with
  the part before it, and the two points of a small range exactly when its width is at
  most 65536 bytes (\<open>end - start < 65536\<close>); a part of 65537 bytes or more gets no
  small-range points.
\<close>

theorem small_range_points:
  "POINT_SUM (dosScan first (ps @ [v])) =
     POINT_SUM (dosScan first ps)
       + (if end' v < start v then POINT_OF_NOT_SATISFABLE else 0)
       + (if width v \<le> 65536 then POINT_SMALL_RANGE else 0)
       + (if ps \<noteq> [] \<and> crossRange (last ps) v then POINT_CROSS_RANGE else 0)"
proof -
  have "width v \<le> 65536 \<longleftrightarrow> end' v - start v < 65536" by (auto simp: width_def)
  then show ?thesis
    by (simp add: dosScan_snoc_points POINT_OF_NOT_SATISFABLE_def POINT_SMALL_RANGE_def
        POINT_CROSS_RANGE_def)
qed

theorem small_range_points_witness:
  "POINT_SUM (dosScan \<lparr>start = 0, end' = 65536\<rparr> ([\<lparr>start = 0, end' = 65536\<rparr>] @ [\<lparr>start = 70000, end' = 135535\<rparr>]))
     = POINT_SUM (dosScan \<lparr>start = 0, end' = 65536\<rparr> [\<lparr>start = 0, end' = 65536\<rparr>]) + 2
   \<and> POINT_SUM (dosScan \<lparr>start = 0, end' = 65536\<rparr> [\<lparr>start = 0, end' = 65536\<rparr>]) = 0
   \<and> width \<lparr>start = 70000, end' = 135535\<rparr> = 65536
   \<and> width \<lparr>start = 0, end' = 65536\<rparr> = 65537"
proof -
  have c: "\<not> crossRange \<lparr>start = 0, end' = 65536\<rparr> \<lparr>start = 70000, end' = 135535\<rparr>" by code_simp
  have z: "POINT_SUM (dosScan \<lparr>start = 0, end' = 65536\<rparr> [\<lparr>start = 0, end' = 65536\<rparr>]) = 0" by code_simp
  from small_range_points[of "\<lparr>start = 0, end' = 65536\<rparr>" "[\<lparr>start = 0, end' = 65536\<rparr>]" "\<lparr>start = 70000, end' = 135535\<rparr>"] c z
  show ?thesis by (simp add: width_def POINT_SMALL_RANGE_def)
qed




text \<open>
  C5, as stated, fails for an accepted set with a range outside the file: the options the
  server passes do not clamp ranges to the file, and the scorer does not look at the file
  size. For a file of 20 bytes and the header \<open>bytes=0-5,200-205\<close> the set is accepted
  (score 6) and both widths, 6 and 6, go into Content-Length, 137; the second range names
  no byte of the file, so the body, headers and closing boundary included, has 131 bytes.
\<close>

theorem multipart_Content_Length_counterexample:
  "statusCode (httpListener ''B''
       (Some \<lparr>fileName = ''a.txt'', fileExtension = ''.txt'', content = ''abcdefghijklmnopqrst''\<rparr>)
       \<lparr>method' = ''GET'', rangeHeader = Some ''bytes=0-5,200-205''\<rparr>) = 206
   \<and> header (httpListener ''B''
       (Some \<lparr>fileName = ''a.txt'', fileExtension = ''.txt'', content = ''abcdefghijklmnopqrst''\<rparr>)
       \<lparr>method' = ''GET'', rangeHeader = Some ''bytes=0-5,200-205''\<rparr>) ''Content-Length'' = Some ''137''
   \<and> length (body (httpListener ''B''
       (Some \<lparr>fileName = ''a.txt'', fileExtension = ''.txt'', content = ''abcdefghijklmnopqrst''\<rparr>)
       \<lparr>method' = ''GET'', rangeHeader = Some ''bytes=0-5,200-205''\<rparr>)) = 131"
  by code_simp

text \<open>
  C5, amended. For an accepted request with more than one range, all of them inside the
  file (\<open>0 \<le> start\<close> and \<open>end \<le> fileSize - 1\<close>), the Content-Length header is the sum of the
  widths of the ranges, the size of the part headers and the length of the closing
  boundary, and this number is the length of the concatenation of all part headers, all
  part bodies and the closing boundary; for GET the status is 206 and the body is that
  data, each part header followed by its part, so the header gives the length of the
  body. For HEAD the header is the same and nothing is read.
\<close>

theorem multipart_Content_Length:
  assumes "method' req = ''GET'' \<or> method' req = ''HEAD''"
    and "rangeSupport (getContentInfo (fileExtension f))"
    and "rangeHeader req = Some h" and "h \<noteq> []"
    and "getRanges h (int (length (content f))) serverOptions = Inr rs"
    and "1 < length (byteRangeSet rs)"
    and "\<forall>r\<in>set (byteRangeSet rs). 0 \<le> start r \<and> end' r < int (length (content f))"
  shows "header (httpListener boundary (Some f) req) ''Content-Length''
       = Some (showInt (length' rs
           + size' (partialContentHeaders (byteRangeSet rs) boundary
                      (type' (getContentInfo (fileExtension f))) (int (length (content f))))
           + int (length (CRLF @ ''--'' @ boundary @ ''--''))))
    \<and> length' rs
         + size' (partialContentHeaders (byteRangeSet rs) boundary
                    (type' (getContentInfo (fileExtension f))) (int (length (content f))))
         + int (length (CRLF @ ''--'' @ boundary @ ''--''))
       = int (length (concat (headers (partialContentHeaders (byteRangeSet rs) boundary
                                (type' (getContentInfo (fileExtension f))) (int (length (content f)))))
                      @ concat (map (fileSpan (content f)) (byteRangeSet rs))
                      @ CRLF @ ''--'' @ boundary @ ''--''))
    \<and> (method' req = ''GET'' \<longrightarrow>
         statusCode (httpListener boundary (Some f) req) = 206
       \<and> body (httpListener boundary (Some f) req)
           = concat (map2 (@)
               (headers (partialContentHeaders (byteRangeSet rs) boundary
                           (type' (getContentInfo (fileExtension f))) (int (length (content f)))))
               (map (fileSpan (content f)) (byteRangeSet rs)))
             @ CRLF @ ''--'' @ boundary @ ''--''
       \<and> header (httpListener boundary (Some f) req) ''Content-Length''
           = Some (showInt (int (length (body (httpListener boundary (Some f) req))))))"
proof -
  let ?ct = "type' (getContentInfo (fileExtension f))"
  let ?n = "int (length (content f))"
  let ?ph = "partialContentHeaders (byteRangeSet rs) boundary ?ct ?n"
  let ?ss = "map (fileSpan (content f)) (byteRangeSet rs)"
  let ?eb = "CRLF @ ''--'' @ boundary @ ''--''"
  let ?base = "(prepareHeaders f)\<lparr>statusCode := 206\<rparr>"
  have eq: "httpListener boundary (Some f) req = multiRange boundary f req ?ct rs ?base"
    using httpListener_range[OF assms(1,2,3,4), of boundary] assms(5,6) by simp
  have wf: "\<forall>r\<in>set (byteRangeSet rs). 0 \<le> start r \<and> start r \<le> end' r \<and> end' r < ?n"
    using assms(7) getRanges_wellformed[OF assms(5)] by (simp add: serverOptions_def)
  then have wf2: "\<forall>r\<in>set (byteRangeSet rs). 0 \<le> start r \<and> start r \<le> end' r" by blast
  have cl: "header (httpListener boundary (Some f) req) ''Content-Length''
       = Some (showInt (length' rs + size' ?ph + int (length ?eb)))"
    unfolding eq by (rule multiRange_Content_Length)
  have "length' rs = int (length (concat ?ss))"
    using getRanges_length'[OF assms(5)] length_concat_fileSpan[OF wf] by simp
  moreover have "size' ?ph = int (length (concat (headers ?ph)))"
    by (rule partialContentHeaders_size)
  ultimately have sum: "length' rs + size' ?ph + int (length ?eb)
       = int (length (concat (headers ?ph) @ concat ?ss @ ?eb))"
    by simp
  have get: "statusCode (httpListener boundary (Some f) req) = 206
       \<and> body (httpListener boundary (Some f) req) = concat (map2 (@) (headers ?ph) ?ss) @ ?eb
       \<and> header (httpListener boundary (Some f) req) ''Content-Length''
           = Some (showInt (int (length (body (httpListener boundary (Some f) req)))))"
    if g: "method' req = ''GET''"
  proof -
    have b: "body (httpListener boundary (Some f) req) = concat (map2 (@) (headers ?ph) ?ss) @ ?eb"
      unfolding eq using multiRange_GET(1)[OF g wf2] by simp
    have s: "statusCode (httpListener boundary (Some f) req) = 206"
      unfolding eq using multiRange_GET(2)[OF g wf2, of boundary f ?ct ?base] by simp
    have "length (headers ?ph) = length ?ss" by (simp add: partialContentHeaders_length)
    then have "length (concat (map2 (@) (headers ?ph) ?ss)) = length (concat (headers ?ph)) + length (concat ?ss)"
      by (rule length_concat_map2)
    then have len: "int (length (body (httpListener boundary (Some f) req)))
        = length' rs + size' ?ph + int (length ?eb)"
      unfolding b sum by simp
    have "header (httpListener boundary (Some f) req) ''Content-Length''
           = Some (showInt (int (length (body (httpListener boundary (Some f) req)))))"
      unfolding len by (rule cl)
    with b s show ?thesis by blast
  qed
  from cl sum get show ?thesis by blast
qed

theorem multipart_Content_Length_witness:
  "header (httpListener ''B''
       (Some \<lparr>fileName = ''a.txt'', fileExtension = ''.txt'', content = ''abcdefghijklmnopqrst''\<rparr>)
       \<lparr>method' = ''GET'', rangeHeader = Some ''bytes=0-1,5-6''\<rparr>) ''Content-Length''
     = Some (showInt (int (length (body (httpListener ''B''
       (Some \<lparr>fileName = ''a.txt'', fileExtension = ''.txt'', content = ''abcdefghijklmnopqrst''\<rparr>)
       \<lparr>method' = ''GET'', rangeHeader = Some ''bytes=0-1,5-6''\<rparr>)))))
   \<and> statusCode (httpListener ''B''
       (Some \<lparr>fileName = ''a.txt'', fileExtension = ''.txt'', content = ''abcdefghijklmnopqrst''\<rparr>)
       \<lparr>method' = ''GET'', rangeHeader = Some ''bytes=0-1,5-6''\<rparr>) = 206
   \<and> getRanges ''bytes=0-1,5-6'' 20 serverOptions
       = Inr \<lparr>byteRangeSet = [\<lparr>start = 0, end' = 1\<rparr>, \<lparr>start = 5, end' = 6\<rparr>], length' = 4\<rparr>
   \<and> header (httpListener ''B''
       (Some \<lparr>fileName = ''a.txt'', fileExtension = ''.txt'', content = ''abcdefghijklmnopqrst''\<rparr>)
       \<lparr>method' = ''GET'', rangeHeader = Some ''bytes=0-1,5-6''\<rparr>) ''Content-Length'' = Some ''125''"
proof -
  let ?f = "\<lparr>fileName = ''a.txt'', fileExtension = ''.txt'', content = ''abcdefghijklmnopqrst''\<rparr>"
  let ?req = "\<lparr>method' = ''GET'', rangeHeader = Some ''bytes=0-1,5-6''\<rparr>"
  let ?rs = "\<lparr>byteRangeSet = [\<lparr>start = 0, end' = 1\<rparr>, \<lparr>start = 5, end' = 6\<rparr>], length' = 4\<rparr>"
  have m: "method' ?req = ''GET'' \<or> method' ?req = ''HEAD''" by simp
  have s: "rangeSupport (getContentInfo (fileExtension ?f))" by code_simp
  have h: "rangeHeader ?req = Some ''bytes=0-1,5-6''" by simp
  have n: "''bytes=0-1,5-6'' \<noteq> []" by simp
  have g: "getRanges ''bytes=0-1,5-6'' (int (length (content ?f))) serverOptions = Inr ?rs" by code_simp
  have l: "1 < length (byteRangeSet ?rs)" by simp
  have i: "\<forall>r\<in>set (byteRangeSet ?rs). 0 \<le> start r \<and> end' r < int (length (content ?f))" by simp
  have g': "getRanges ''bytes=0-1,5-6'' 20 serverOptions = Inr ?rs" using g by simp
  have mg: "method' ?req = ''GET''" by simp
  have c: "header (httpListener ''B'' (Some ?f) ?req) ''Content-Length'' = Some ''125''" by code_simp
  from multipart_Content_Length[OF m s h n g l i, of "''B''"] mg g' c show ?thesis by blast
qed

text \<open>
  C9, as stated, fails where the numbers leave the exact integers of double precision.
  For the header piece \<open>9007199254740992-9007199256740992\<close> (the start is \<open>2^53\<close>) the
  parsed range is 2000001 bytes wide, more than the server's maximum 524288; the new end
  \<open>start + 524288 - 1\<close> is odd and is rounded up to \<open>start + 524288\<close>, so the range
  returned is 524289 bytes wide and 524289 is what is added to \<open>length\<close>.
\<close>

theorem truncation_rounded_counterexample:
  "parsedRangeD serverOptions 1000 ''9007199254740992-9007199256740992''
     = Some (Inr \<lparr>start = 9007199254740992, end' = 9007199256740992\<rparr>)
   \<and> width \<lparr>start = 9007199254740992, end' = 9007199256740992\<rparr> = 2000001
   \<and> optPartialMaxLength serverOptions = 524288
   \<and> rangesForEachD serverOptions 1000 [''9007199254740992-9007199256740992'']
         \<lparr>byteRangeSet = [], length' = 0\<rparr>
     = Some (Inr \<lparr>byteRangeSet = [\<lparr>start = 9007199254740992, end' = 9007199255265280\<rparr>],
                  length' = 524289\<rparr>)
   \<and> width \<lparr>start = 9007199254740992, end' = 9007199255265280\<rparr> = 524289"
  by code_simp

text \<open>
  C9, amended. Let the file size and every number written in the header be below \<open>2^53\<close>
  and the maximum chunk length be non-negative. Then the set the loop of \<open>getRanges\<close>
  returns follows the pieces of the header one by one: where a maximum is configured (the
  option is not 0) and the parsed range is wider than it, the returned range has the same
  start and the end \<open>start + partialMaxLength - 1\<close>, so its width is exactly the maximum;
  any other parsed range is returned as it is. When the absolute widths of the returned
  ranges add up to at most \<open>2^53\<close>, the returned \<open>length\<close> is the sum of the widths of the
  returned, truncated ranges.
\<close>

theorem truncation_to_partialMaxLength_exact:
  assumes "0 \<le> fileSize" "fileSize < 2 ^ 53" "0 \<le> optPartialMaxLength opts"
    and "\<forall>v\<in>set values. \<forall>s e. exec v = Some (s, e) \<longrightarrow> Number s < 2 ^ 53 \<and> Number e < 2 ^ 53"
    and "rangesForEachD opts fileSize values \<lparr>byteRangeSet = [], length' = 0\<rparr> = Some (Inr res)"
  shows "\<exists>ps.
      list_all2 (\<lambda>v p. parsedRangeD opts fileSize v = Some (Inr p)) values ps
    \<and> list_all2 (\<lambda>p r. if optPartialMaxLength opts \<noteq> 0 \<and> optPartialMaxLength opts < width p
                        then start r = start p \<and> end' r = start p + optPartialMaxLength opts - 1
                             \<and> width r = optPartialMaxLength opts
                        else r = p) ps (byteRangeSet res)
    \<and> ((\<Sum>r\<leftarrow>byteRangeSet res. \<bar>width r\<bar>) \<le> 2 ^ 53
         \<longrightarrow> length' res = sum_list (map width (byteRangeSet res)))"
proof -
  from rangesForEachD_acc[OF assms(5)] obtain ps rs where
    a: "list_all2 (\<lambda>v p. parsedRangeD opts fileSize v = Some (Inr p)) values ps"
    and b: "list_all2 (\<lambda>p r. truncateEndD opts p = Some r) ps rs"
    and c: "byteRangeSet res = rs"
    and d: "sumD 0 rs = Some (length' res)"
    by auto
  have ex: "list_all2 (\<lambda>v p. exactRange p) values ps"
  proof (rule list.rel_mono_strong[OF a])
    fix v p
    assume v: "v \<in> set values" and p: "parsedRangeD opts fileSize v = Some (Inr p)"
    from v assms(4) have "\<forall>s e. exec v = Some (s, e) \<longrightarrow> Number s < 2 ^ 53 \<and> Number e < 2 ^ 53"
      by simp
    from parsedRangeD_exact[OF assms(1,2) this, of opts] p show "exactRange p" by simp
  qed
  then have exs: "\<forall>p\<in>set ps. exactRange p"
    by (auto simp: list_all2_conv_all_nth in_set_conv_nth)
  have tr: "list_all2 (\<lambda>p r. r = truncateEnd opts p \<and> exactRange r) ps rs"
  proof (rule list.rel_mono_strong[OF b])
    fix p r
    assume "p \<in> set ps" and t: "truncateEndD opts p = Some r"
    with exs have "exactRange p" by simp
    from truncateEndD_exact[OF this assms(3)] t show "r = truncateEnd opts p \<and> exactRange r" by simp
  qed
  have rule: "list_all2 (\<lambda>p r. if optPartialMaxLength opts \<noteq> 0 \<and> optPartialMaxLength opts < width p
                        then start r = start p \<and> end' r = start p + optPartialMaxLength opts - 1
                             \<and> width r = optPartialMaxLength opts
                        else r = p) ps rs"
    by (rule list_all2_mono[OF tr]) (auto simp: truncateEnd_def width_def)
  have ers: "\<forall>r\<in>set rs. exactRange r"
    using tr by (auto simp: list_all2_conv_all_nth in_set_conv_nth)
  have "length' res = sum_list (map width rs)" if "(\<Sum>r\<leftarrow>rs. \<bar>width r\<bar>) \<le> 2 ^ 53"
    using sumD_exact[OF ers, of 0] that d by simp
  with a rule c show ?thesis by blast
qed

theorem truncation_to_partialMaxLength_exact_witness:
  "rangesForEachD serverOptions 2000000 [''0-999999'', ''5-9''] \<lparr>byteRangeSet = [], length' = 0\<rparr>
     = Some (Inr \<lparr>byteRangeSet = [\<lparr>start = 0, end' = 524287\<rparr>, \<lparr>start = 5, end' = 9\<rparr>], length' = 524293\<rparr>)
   \<and> (\<exists>ps.
      list_all2 (\<lambda>v p. parsedRangeD serverOptions 2000000 v = Some (Inr p)) [''0-999999'', ''5-9''] ps
    \<and> list_all2 (\<lambda>p r. if optPartialMaxLength serverOptions \<noteq> 0 \<and> optPartialMaxLength serverOptions < width p
                        then start r = start p \<and> end' r = start p + optPartialMaxLength serverOptions - 1
                             \<and> width r = optPartialMaxLength serverOptions
                        else r = p) ps [\<lparr>start = 0, end' = 524287\<rparr>, \<lparr>start = 5, end' = 9\<rparr>])
   \<and> (524293 :: int) = sum_list (map width [\<lparr>start = 0, end' = 524287\<rparr>, \<lparr>start = 5, end' = 9\<rparr>])"
proof -
  let ?res = "\<lparr>byteRangeSet = [\<lparr>start = 0, end' = 524287\<rparr>, \<lparr>start = 5, end' = 9\<rparr>], length' = 524293\<rparr>"
  have f: "(0::int) \<le> 2000000" "(2000000::int) < 2 ^ 53" by simp_all
  have o: "0 \<le> optPartialMaxLength serverOptions"
    by (simp add: serverOptions_def partialMaxLength_def)
  have e1: "exec ''0-999999'' = Some (''0'', ''999999'')" by code_simp
  have e2: "exec ''5-9'' = Some (''5'', ''9'')" by code_simp
  have n: "Number ''0'' = 0" "Number ''999999'' = 999999" "Number ''5'' = 5" "Number ''9'' = 9"
    by code_simp+
  have h: "\<forall>v\<in>set [''0-999999'', ''5-9'']. \<forall>s e. exec v = Some (s, e) \<longrightarrow> Number s < 2 ^ 53 \<and> Number e < 2 ^ 53"
    by (simp del: exec.simps add: e1 e2 n)
  have g: "rangesForEachD serverOptions 2000000 [''0-999999'', ''5-9''] \<lparr>byteRangeSet = [], length' = 0\<rparr>
     = Some (Inr ?res)" by code_simp
  have w: "(\<Sum>r\<leftarrow>byteRangeSet ?res. \<bar>width r\<bar>) \<le> 2 ^ 53" by (simp add: width_def)
  from truncation_to_partialMaxLength_exact[OF f o h g] obtain ps where
    p: "list_all2 (\<lambda>v p. parsedRangeD serverOptions 2000000 v = Some (Inr p)) [''0-999999'', ''5-9''] ps"
    and r: "list_all2 (\<lambda>p r. if optPartialMaxLength serverOptions \<noteq> 0 \<and> optPartialMaxLength serverOptions < width p
                        then start r = start p \<and> end' r = start p + optPartialMaxLength serverOptions - 1
                             \<and> width r = optPartialMaxLength serverOptions
                        else r = p) ps (byteRangeSet ?res)"
    and l: "(\<Sum>r\<leftarrow>byteRangeSet ?res. \<bar>width r\<bar>) \<le> 2 ^ 53
         \<longrightarrow> length' ?res = sum_list (map width (byteRangeSet ?res))"
    by blast
  from l w have "length' ?res = sum_list (map width (byteRangeSet ?res))" by blast
  then have s: "(524293 :: int) = sum_list (map width [\<lparr>start = 0, end' = 524287\<rparr>, \<lparr>start = 5, end' = 9\<rparr>])"
    by (simp only: ranges.simps)
  from r have r': "list_all2 (\<lambda>p r. if optPartialMaxLength serverOptions \<noteq> 0 \<and> optPartialMaxLength serverOptions < width p
                        then start r = start p \<and> end' r = start p + optPartialMaxLength serverOptions - 1
                             \<and> width r = optPartialMaxLength serverOptions
                        else r = p) ps [\<lparr>start = 0, end' = 524287\<rparr>, \<lparr>start = 5, end' = 9\<rparr>]"
    by (simp only: ranges.simps)
  from g p r' s show ?thesis by blast
qed

text \<open>
  C1. Two ranges narrower than 64 KiB, the second below the first, that overlap are what
  the claim rejects. The set 100-200, 50-150 gets 2 + 2 points for two small ranges and 3
  for the overlap; the test of line 262 (the previous part ends before the current one
  starts) fails for it, so the multiplier stays 1, the score is 7, and the request is
  answered with status 206 and no Content-Range header. With the multiplier that the
  constant \<open>POINT_NOT_SORTED_MULTIPLICATOR\<close> names, the 7 points would reach the threshold.
\<close>

theorem narrow_shuffled_overlapping_pair_accepted:
  "getRanges ''bytes=100-200,50-150'' 256 serverOptions
     = Inr \<lparr>byteRangeSet = [\<lparr>start = 100, end' = 200\<rparr>, \<lparr>start = 50, end' = 150\<rparr>], length' = 202\<rparr>
   \<and> POINT_SUM (dosScan \<lparr>start = 100, end' = 200\<rparr> [\<lparr>start = 100, end' = 200\<rparr>, \<lparr>start = 50, end' = 150\<rparr>]) = 7
   \<and> MULTIPLICATOR (dosScan \<lparr>start = 100, end' = 200\<rparr> [\<lparr>start = 100, end' = 200\<rparr>, \<lparr>start = 50, end' = 150\<rparr>]) = 1
   \<and> dosScore (dosScan \<lparr>start = 100, end' = 200\<rparr> [\<lparr>start = 100, end' = 200\<rparr>, \<lparr>start = 50, end' = 150\<rparr>]) = 7
   \<and> \<not> isDenialOfServiceAttacks [\<lparr>start = 100, end' = 200\<rparr>, \<lparr>start = 50, end' = 150\<rparr>]
   \<and> of_int POINT_OF_NOT_SATISFABLE \<le> of_int 7 * POINT_NOT_SORTED_MULTIPLICATOR
   \<and> statusCode (httpListener ''B''
         (Some \<lparr>fileName = ''a.txt'', fileExtension = ''.txt'', content = replicate 256 CHR ''x''\<rparr>)
         \<lparr>method' = ''GET'', rangeHeader = Some ''bytes=100-200,50-150''\<rparr>) = 206
   \<and> header (httpListener ''B''
         (Some \<lparr>fileName = ''a.txt'', fileExtension = ''.txt'', content = replicate 256 CHR ''x''\<rparr>)
         \<lparr>method' = ''GET'', rangeHeader = Some ''bytes=100-200,50-150''\<rparr>) ''Content-Range'' = None"
  by code_simp

end
